theory Spec2Isabelle
  imports Complex_Main "HOL-Library.Sublist"
begin

section \<open>Grid cells and directions\<close>

text \<open>
  A cell is an object \<^verbatim>\<open>{x, y}\<close> of integer grid coordinates. The board is the
  constant \<^verbatim>\<open>this.grid = 28\<close> set once by the constructor.
\<close>

datatype cell = Cell (cx: int) (cy: int)

text \<open>An entry of \<^verbatim>\<open>DIRS\<close>: \<^verbatim>\<open>{dx, dy, key, name}\<close>.\<close>

datatype dir = Dir (dx: int) (dy: int) (key: string) (name: string)

definition up :: dir where
  "up = Dir 0 (- 1) ''ArrowUp'' ''up''"

definition right :: dir where
  "right = Dir 1 0 ''ArrowRight'' ''right''"

definition down :: dir where
  "down = Dir 0 1 ''ArrowDown'' ''down''"

definition left :: dir where
  "left = Dir (- 1) 0 ''ArrowLeft'' ''left''"

definition DIRS :: "dir list" where
  "DIRS = [up, right, down, left]"

definition grid :: int where
  "grid = 28"

definition startCell :: cell where
  "startCell = Cell (grid div 2) (grid div 2)"

text \<open>
  \<^verbatim>\<open>sameCell(a, b)\<close> on two present cells; the \<^verbatim>\<open>!!a && !!b\<close> guards are
  written at the call sites whose argument may be null.
\<close>

definition sameCell :: "cell \<Rightarrow> cell \<Rightarrow> bool" where
  "sameCell a b \<longleftrightarrow> cx a = cx b \<and> cy a = cy b"

definition manhattan :: "cell \<Rightarrow> cell \<Rightarrow> int" where
  "manhattan a b = \<bar>cx a - cx b\<bar> + \<bar>cy a - cy b\<bar>"

definition isInside :: "cell \<Rightarrow> bool" where
  "isInside pos \<longleftrightarrow> cx pos \<ge> 0 \<and> cy pos \<ge> 0 \<and> cx pos < grid \<and> cy pos < grid"

section \<open>Path planner\<close>

text \<open>
  \<^verbatim>\<open>bodyKey\<close> renders a body as the string \<^verbatim>\<open>x:y|x:y|...\<close>. On integer
  coordinates that rendering determines the list of coordinate pairs and is
  determined by it, so the key is modelled as that list; the \<^verbatim>\<open>visited\<close>
  set of strings becomes a set of such lists.
\<close>

type_synonym bodykey = "(int \<times> int) list"

definition bodyKey :: "cell list \<Rightarrow> bodykey" where
  "bodyKey body = map (\<lambda>segment. (cx segment, cy segment)) body"

text \<open>
  A search state \<^verbatim>\<open>{head, body, parent, move}\<close>; \<^verbatim>\<open>parent\<close> is an index into
  the state array, \<^verbatim>\<open>-1\<close> at the root, and \<^verbatim>\<open>move\<close> is null at the root.
\<close>

record node =
  nhead :: cell
  nbody :: "cell list"
  parent :: int
  move :: "dir option"

definition maxNodes :: nat where
  "maxNodes = 20000"

text \<open>
  One pass of the body of \<^verbatim>\<open>for (const dir of DIRS)\<close> in \<^verbatim>\<open>findPath\<close>,
  on the pair of the state array and the visited set.
\<close>

definition tryDir ::
  "string \<Rightarrow> cell \<Rightarrow> nat \<Rightarrow> node \<Rightarrow> node list \<times> bodykey set \<Rightarrow> dir \<Rightarrow> node list \<times> bodykey set"
where
  "tryDir mode target cursor state acc d =
    (let states = fst acc; visited = snd acc;
         newHead = Cell (cx (nhead state) + dx d) (cy (nhead state) + dy d)
     in if \<not> isInside newHead then acc
        else
          let grows = (mode = ''food'' \<and> sameCell newHead target);
              collisionBody = (if grows then nbody state else butlast (nbody state))
          in if list_ex (\<lambda>segment. cx segment = cx newHead \<and> cy segment = cy newHead) collisionBody
             then acc
             else
               let newBody = (if grows then newHead # nbody state
                              else butlast (newHead # nbody state));
                   k = bodyKey newBody
               in if k \<in> visited then acc
                  else if length states < maxNodes
                    then (states @ [\<lparr>nhead = newHead, nbody = newBody,
                                     parent = int cursor, move = Some d\<rparr>],
                          insert k visited)
                    else (states, insert k visited))"

text \<open>
  The \<^verbatim>\<open>while (cursor < states.length && cursor < maxNodes)\<close> loop. It either
  stops at a goal state (\<open>Found\<close>, with the state array and the index of the
  goal) or runs out of states or of the node budget (\<open>Exhausted\<close>, with the
  final array and the number of states expanded).
\<close>

datatype search = Found "node list" nat | Exhausted "node list" nat

function findPath_loop ::
  "string \<Rightarrow> cell \<Rightarrow> node list \<times> bodykey set \<Rightarrow> nat \<Rightarrow> search"
where
  "findPath_loop mode target (states, visited) cursor =
    (if cursor < length states \<and> cursor < maxNodes then
       if sameCell (nhead (states ! cursor)) target \<and>
          (mode = ''food'' \<or> parent (states ! cursor) \<noteq> - 1)
       then Found states cursor
       else findPath_loop mode target
              (foldl (tryDir mode target cursor (states ! cursor)) (states, visited) DIRS)
              (cursor + 1)
     else Exhausted states cursor)"
  by pat_completeness auto
termination
  by (relation "measure (\<lambda>(mode, target, sv, cursor). maxNodes - cursor)") auto

declare findPath_loop.simps [simp del]

text \<open>
  \<^verbatim>\<open>reconstructPath\<close>: follow the parent indices from \<^verbatim>\<open>index\<close> until
  \<^verbatim>\<open>-1\<close>, pushing every non-null move, then reverse. On an arbitrary array
  the loop need not end (a cycle of parents) and an index outside the array
  makes the JavaScript throw; both are the value \<open>None\<close>.
\<close>

partial_function (option) reconstructPath_loop ::
  "node list \<Rightarrow> int \<Rightarrow> dir list \<Rightarrow> dir list option"
where
  "reconstructPath_loop states cursor path =
    (if cursor = - 1 then Some (rev path)
     else if cursor < 0 \<or> cursor \<ge> int (length states) then None
     else reconstructPath_loop states (parent (states ! nat cursor))
            (case move (states ! nat cursor) of
               Some m \<Rightarrow> path @ [m]
             | None \<Rightarrow> path))"

declare reconstructPath_loop.simps [code]

definition reconstructPath :: "node list \<Rightarrow> nat \<Rightarrow> dir list option" where
  "reconstructPath states index = reconstructPath_loop states (int index) []"

text \<open>
  \<^verbatim>\<open>findPath(body, target, mode)\<close>. The outer \<open>option\<close> is \<open>None\<close> when the
  call does not return; \<open>Some None\<close> is the return value null and
  \<open>Some (Some moves)\<close> a returned move sequence. With an empty body the
  start head is the empty object, no comparison or bounds check on it
  succeeds, nothing is expanded and null is returned.
\<close>

definition findPath ::
  "cell list \<Rightarrow> cell option \<Rightarrow> string \<Rightarrow> dir list option option"
where
  "findPath body target mode =
    (case target of
       None \<Rightarrow> Some None
     | Some t \<Rightarrow>
        (case body of
           [] \<Rightarrow> Some None
         | h # _ \<Rightarrow>
            (case findPath_loop mode t
                    ([\<lparr>nhead = h, nbody = body, parent = - 1, move = None\<rparr>],
                     {bodyKey body}) 0 of
               Found states cursor \<Rightarrow> map_option Some (reconstructPath states cursor)
             | Exhausted states cursor \<Rightarrow> Some None)))"

section \<open>Perception: refining and walking the snake cluster\<close>

text \<open>
  \<^verbatim>\<open>coordKey\<close> renders a cell as the string \<^verbatim>\<open>x,y\<close>; as for \<^verbatim>\<open>bodyKey\<close>
  the key is modelled as the pair of coordinates. A cluster is
  \<^verbatim>\<open>{cells, set}\<close>: the cells in traversal order and the set of their keys.
\<close>

type_synonym coordkey = "int \<times> int"

definition coordKey :: "cell \<Rightarrow> coordkey" where
  "coordKey c = (cx c, cy c)"

record cluster =
  cells :: "cell list"
  cset :: "coordkey set"

definition valueThreshold :: real where
  "valueThreshold = 32"

text \<open>
  The loop of \<^verbatim>\<open>refineSnakeCluster\<close> that removes repeated coordinates, with
  its \<^verbatim>\<open>break\<close> once \<^verbatim>\<open>maxKeep\<close> cells are collected.
\<close>

fun uniqueCells :: "nat \<Rightarrow> cell list \<Rightarrow> coordkey set \<Rightarrow> cell list \<Rightarrow> cell list" where
  "uniqueCells maxKeep [] seen unique = unique"
| "uniqueCells maxKeep (c # rest) seen unique =
    (if coordKey c \<in> seen then uniqueCells maxKeep rest seen unique
     else if length (unique @ [Cell (cx c) (cy c)]) \<ge> maxKeep
       then unique @ [Cell (cx c) (cy c)]
       else uniqueCells maxKeep rest (insert (coordKey c) seen)
              (unique @ [Cell (cx c) (cy c)]))"

text \<open>
  \<^verbatim>\<open>refineSnakeCluster(cluster, metrics, expectedLen)\<close>. The table \<open>metrics\<close>
  gives \<^verbatim>\<open>metrics[cell.y][cell.x].value\<close>, the luma of a cell; only its order
  is used (a stable descending sort, \<^verbatim>\<open>>=\<close> and \<^verbatim>\<open>Math.max\<close>), so the
  values are reals. \<open>sort_key\<close> is a stable insertion sort, as the sort of
  the JavaScript array is stable. The cut-off index is computed in the
  integers: for \<^verbatim>\<open>expectedLen = 0\<close> it is \<^verbatim>\<open>-1\<close> and the
  \<^verbatim>\<open>?? this.valueThreshold\<close> default applies.
\<close>

definition maxKeepOf :: "nat \<Rightarrow> nat \<Rightarrow> nat" where
  "maxKeepOf n expectedLen = max (expectedLen + 6) (min n (expectedLen * 2))"

definition dynamicThresholdOf :: "(cell \<Rightarrow> real) \<Rightarrow> cell list \<Rightarrow> nat \<Rightarrow> real" where
  "dynamicThresholdOf metrics slice expectedLen =
    (let cutoffIndex = min (int expectedLen - 1) (int (length slice) - 1)
     in max valueThreshold
          (if 0 \<le> cutoffIndex \<and> cutoffIndex < int (length slice)
           then metrics (slice ! nat cutoffIndex) else valueThreshold))"

definition refineSnakeCluster ::
  "cluster option \<Rightarrow> (cell \<Rightarrow> real) \<Rightarrow> nat \<Rightarrow> cluster option"
where
  "refineSnakeCluster cluster metrics expectedLen =
    (case cluster of
       None \<Rightarrow> None
     | Some cl \<Rightarrow>
        if cells cl = [] then Some cl
        else
          let enriched = sort_key (\<lambda>c. - metrics c) (cells cl);
              maxKeep = maxKeepOf (length enriched) expectedLen;
              slice = take maxKeep enriched;
              dynamicThreshold = dynamicThresholdOf metrics slice expectedLen;
              filtered = map snd (filter (\<lambda>(i, c). metrics c \<ge> dynamicThreshold \<or> i < expectedLen)
                                   (enumerate 0 slice));
              unique = uniqueCells maxKeep filtered {} []
          in Some \<lparr>cells = unique, cset = set (map coordKey unique)\<rparr>)"

definition getNeighbors :: "cell \<Rightarrow> coordkey set \<Rightarrow> cell list" where
  "getNeighbors c s =
    filter (\<lambda>pos. \<not> (cx pos < 0 \<or> cy pos < 0 \<or> cx pos \<ge> grid \<or> cy pos \<ge> grid) \<and> coordKey pos \<in> s)
      [Cell (cx c + 1) (cy c), Cell (cx c - 1) (cy c),
       Cell (cx c) (cy c + 1), Cell (cx c) (cy c - 1)]"

text \<open>
  The control loop's fields (\<^verbatim>\<open>this.*\<close>). \<^verbatim>\<open>currentDir\<close> is an object
  \<^verbatim>\<open>{x, y}\<close>, so it has the type of a cell.
\<close>

record bot =
  prevSnakeKeys :: "coordkey set"
  prevHead :: "cell option"
  expectedHead :: "cell option"
  commandPending :: bool
  plan :: "dir list"
  prevSnake :: "cell list option"
  prevFood :: "cell option"
  lastScore :: int
  currentDir :: "cell option"
  lastBodyLength :: nat

text \<open>
  The result \<^verbatim>\<open>{head, tail, body}\<close> of a reconstruction and the observation
  \<^verbatim>\<open>{head, tail, body, food}\<close> share their first fields. \<^verbatim>\<open>head\<close> is
  \<^verbatim>\<open>body[0]\<close>, undefined for an empty body, in the first and a cell in the
  second.
\<close>

record 'h snake =
  head :: 'h
  tail :: cell
  body :: "cell list"

record observation = "cell snake" +
  food :: "cell option"

text \<open>
  The greedy walk \<^verbatim>\<open>while (current) { ... }\<close> of \<^verbatim>\<open>reconstructSnake\<close>:
  \<open>None\<close> is the \<^verbatim>\<open>return null\<close> of the loop guard, \<open>Some body\<close> the body
  when the loop is left by \<^verbatim>\<open>break\<close>.
\<close>

function snakeWalk ::
  "coordkey set \<Rightarrow> coordkey set \<Rightarrow> cell list \<Rightarrow> cell \<Rightarrow> cell option \<Rightarrow> cell list option"
where
  "snakeWalk s visited bdy current prev =
    (case find (\<lambda>candidate.
                  \<not> (case prev of None \<Rightarrow> False | Some p \<Rightarrow> sameCell candidate p) \<and>
                  coordKey candidate \<notin> insert (coordKey current) visited)
               (getNeighbors current s) of
       None \<Rightarrow> Some (bdy @ [current])
     | Some next \<Rightarrow>
        if length (bdy @ [current]) > card s + 2 then None
        else snakeWalk s (insert (coordKey current) visited) (bdy @ [current]) next (Some current))"
  by pat_completeness auto
termination
  by (relation "measure (\<lambda>(s, visited, bdy, current, prev). card s + 3 - length bdy)") auto

declare snakeWalk.simps [simp del]

text \<open>The choice of the head in \<^verbatim>\<open>reconstructSnake\<close>, for a non-empty \<open>cs\<close>.\<close>

definition chooseHead :: "bot \<Rightarrow> cell list \<Rightarrow> coordkey set \<Rightarrow> cell" where
  "chooseHead b cs s =
    (let h1 = (case expectedHead b of
                 Some e \<Rightarrow> if coordKey e \<in> s then Some e else None
               | None \<Rightarrow> None);
         h2 = (case h1 of
                 Some h \<Rightarrow> Some h
               | None \<Rightarrow>
                  (case prevHead b of
                     Some p \<Rightarrow> find (\<lambda>c. manhattan c p = 1 \<and> \<not> sameCell c p) cs
                   | None \<Rightarrow> None));
         endpoints = filter (\<lambda>c. length (getNeighbors c s) \<le> 1) cs;
         reference = (case prevHead b of Some p \<Rightarrow> p | None \<Rightarrow> startCell)
     in case h2 of
          Some h \<Rightarrow> h
        | None \<Rightarrow>
           if length endpoints = 1 then hd endpoints
           else if length endpoints > 1
             then hd (sort_key (\<lambda>a. manhattan a reference) endpoints)
             else hd (sort_key (\<lambda>a. manhattan a reference) cs))"

text \<open>
  The steps after the walk: truncate to \<^verbatim>\<open>expectedLen\<close>, then append the
  last \<^verbatim>\<open>missing\<close> cells of \<^verbatim>\<open>prevSnake\<close> from its end backwards.
\<close>

definition truncateBody :: "cell list \<Rightarrow> nat \<Rightarrow> cell list" where
  "truncateBody bdy expectedLen =
    (if length bdy > expectedLen then take expectedLen bdy else bdy)"

definition padBody :: "bot \<Rightarrow> cell list \<Rightarrow> nat \<Rightarrow> cell list" where
  "padBody b bdy expectedLen =
    (case prevSnake b of
       None \<Rightarrow> bdy
     | Some ps \<Rightarrow>
        if length bdy < expectedLen \<and> ps \<noteq> []
        then bdy @ rev (drop (length ps - (expectedLen - length bdy)) ps)
        else bdy)"

text \<open>
  \<^verbatim>\<open>reconstructSnake(cluster, metrics, expectedLen)\<close>; \<open>None\<close> is null.
  \<^verbatim>\<open>analyzeBoard\<close> passes \<^verbatim>\<open>Math.max(1, score + 1)\<close>, a natural number.
\<close>

definition reconstructSnake ::
  "bot \<Rightarrow> cluster option \<Rightarrow> (cell \<Rightarrow> real) \<Rightarrow> nat \<Rightarrow> cell option snake option"
where
  "reconstructSnake b cluster metrics expectedLen =
    (case cluster of
       None \<Rightarrow> None
     | Some cl \<Rightarrow>
        if cells cl = [] then None
        else
          let hd0 = chooseHead b (cells cl) (cset cl)
          in (case snakeWalk (cset cl) {} [] hd0 None of
                None \<Rightarrow> None
              | Some walked \<Rightarrow>
                 let bdy = padBody b (truncateBody walked expectedLen) expectedLen
                 in if length bdy < expectedLen then None
                    else Some \<lparr>head = (if bdy = [] then None else Some (bdy ! 0)),
                               tail = (if bdy = [] then hd0 else last bdy),
                               body = bdy\<rparr>))"

text \<open>
  \<^verbatim>\<open>expectedLength()\<close> is \<^verbatim>\<open>getScore() + 1\<close>, and \<^verbatim>\<open>analyzeBoard\<close> hands
  \<^verbatim>\<open>Math.max(1, this.expectedLength())\<close> to the two functions above.
\<close>

definition expectedLength :: "int \<Rightarrow> int" where
  "expectedLength score = score + 1"

definition boardExpectedLen :: "int \<Rightarrow> nat" where
  "boardExpectedLen score = nat (max 1 (expectedLength score))"

section \<open>Safety fallback and planning policy\<close>

text \<open>
  The test \<^verbatim>\<open>this.lastBodyLength > 1 && this.currentDir && dir.dx ===
  -this.currentDir.x && dir.dy === -this.currentDir.y\<close>, written out in both
  \<^verbatim>\<open>sendDirection\<close> and \<^verbatim>\<open>chooseSafeDirection\<close>.
\<close>

definition reversesHeading :: "bot \<Rightarrow> dir \<Rightarrow> bool" where
  "reversesHeading b d \<longleftrightarrow>
     lastBodyLength b > 1 \<and>
     (case currentDir b of
        None \<Rightarrow> False
      | Some c \<Rightarrow> dx d = - cx c \<and> dy d = - cy c)"

text \<open>
  One pass of the loops that build \<^verbatim>\<open>order\<close> in \<^verbatim>\<open>chooseSafeDirection\<close>;
  the keys \<^verbatim>\<open>dx,dy\<close> of \<^verbatim>\<open>seen\<close> are pairs.
\<close>

definition pushUnseen :: "(int \<times> int) set \<times> dir list \<Rightarrow> dir \<Rightarrow> (int \<times> int) set \<times> dir list" where
  "pushUnseen acc d =
    (if (dx d, dy d) \<in> fst acc then acc
     else (insert (dx d, dy d) (fst acc), snd acc @ [d]))"

definition directionOrder :: "dir option list \<Rightarrow> dir list" where
  "directionOrder preferred =
     snd (foldl pushUnseen (foldl pushUnseen ({}, []) (List.map_filter (\<lambda>d. d) preferred)) DIRS)"

text \<open>
  \<^verbatim>\<open>chooseSafeDirection(state, preferred)\<close>: the first direction of \<^verbatim>\<open>order\<close>
  that passes the three checks, or null. Entries of \<^verbatim>\<open>preferred\<close> may be null.
\<close>

definition chooseSafeDirection :: "bot \<Rightarrow> observation \<Rightarrow> dir option list \<Rightarrow> dir option" where
  "chooseSafeDirection b state preferred =
     find (\<lambda>d. \<not> reversesHeading b d \<and>
                isInside (Cell (cx (head state) + dx d) (cy (head state) + dy d)) \<and>
                \<not> list_ex (\<lambda>seg. cx seg = cx (head state) + dx d \<and> cy seg = cy (head state) + dy d)
                     (butlast (body state)))
          (directionOrder preferred)"

text \<open>
  \<^verbatim>\<open>sendDirection(dir)\<close>: the returned flag and the keys of the keyboard
  events dispatched.
\<close>

definition sendDirection :: "bot \<Rightarrow> dir \<Rightarrow> bool \<times> string list" where
  "sendDirection b d = (if reversesHeading b d then (False, []) else (True, [key d]))"

definition usablePath :: "dir list option \<Rightarrow> bool" where
  "usablePath p \<longleftrightarrow> (case p of None \<Rightarrow> False | Some ms \<Rightarrow> ms \<noteq> [])"

text \<open>
  \<^verbatim>\<open>planPath(state)\<close> for a present state; \<open>None\<close> when a search does not
  return. \<^verbatim>\<open>body[body.length - 1]\<close> is undefined for an empty body, and
  \<^verbatim>\<open>findPath\<close> returns null for it.
\<close>

definition planPath :: "bot \<Rightarrow> observation \<Rightarrow> dir list option" where
  "planPath b state =
    (case (case food state of
             None \<Rightarrow> Some None
           | Some f \<Rightarrow> findPath (body state) (Some f) ''food'') of
       None \<Rightarrow> None
     | Some pathToFood \<Rightarrow>
        if usablePath pathToFood then pathToFood
        else
          (case findPath (body state)
                  (if body state = [] then None else Some (last (body state))) ''tail'' of
             None \<Rightarrow> None
           | Some fallback \<Rightarrow>
              if usablePath fallback then fallback
              else
                (case chooseSafeDirection b state [] of
                   Some safe \<Rightarrow> Some [safe]
                 | None \<Rightarrow> Some [])))"

section \<open>Control loop\<close>

definition updateCurrentDir :: "bot \<Rightarrow> observation \<Rightarrow> bot" where
  "updateCurrentDir b state =
    (case body state of
       [] \<Rightarrow> b
     | h # rest \<Rightarrow>
        (case rest of
           neck # _ \<Rightarrow> b\<lparr>currentDir := Some (Cell (cx h - cx neck) (cy h - cy neck))\<rparr>
         | [] \<Rightarrow>
            (case expectedHead b of
               Some e \<Rightarrow> b\<lparr>currentDir := Some (Cell (cx e - cx h) (cy e - cy h))\<rparr>
             | None \<Rightarrow> b)))"

definition shouldAvoidWall :: "bot \<Rightarrow> observation \<Rightarrow> bool" where
  "shouldAvoidWall b state =
    (case currentDir b of
       None \<Rightarrow> False
     | Some c \<Rightarrow> \<not> isInside (Cell (cx (head state) + cx c) (cy (head state) + cy c)))"

definition perpendicularDirs :: "bot \<Rightarrow> dir list" where
  "perpendicularDirs b =
    (case currentDir b of
       None \<Rightarrow> DIRS
     | Some c \<Rightarrow>
        if cx c \<noteq> 0 then filter (\<lambda>d. dx d = 0) DIRS
        else if cy c \<noteq> 0 then filter (\<lambda>d. dy d = 0) DIRS
        else DIRS)"

text \<open>
  What one tick reads from the page: the two overlays, the score (read after
  each click in \<^verbatim>\<open>ensureGameRunning\<close> and once more in \<^verbatim>\<open>update\<close>), the
  \<^verbatim>\<open>playing\<close> class and the result of \<^verbatim>\<open>analyzeBoard\<close>, whose pixel
  processing is not part of this model. Clicks on the overlay buttons are not
  recorded; the output of a tick is the list of keys of the keyboard events
  dispatched.
\<close>

record tick =
  startActive :: bool
  gameOverActive :: bool
  scoreAtStart :: int
  scoreAtAgain :: int
  playing :: bool
  score :: int
  board :: "observation option"

definition resetBot :: "bot \<Rightarrow> int \<Rightarrow> bot" where
  "resetBot b sc =
     b\<lparr>prevSnakeKeys := {}, prevHead := None, expectedHead := None,
       commandPending := False, plan := [], prevSnake := None, prevFood := None,
       lastScore := sc, currentDir := Some (Cell 1 0), lastBodyLength := 1\<rparr>"

definition ensureGameRunning :: "tick \<Rightarrow> bot \<Rightarrow> bot" where
  "ensureGameRunning t b =
    (let b1 = (if startActive t then resetBot b (scoreAtStart t) else b)
     in if gameOverActive t then resetBot b1 (scoreAtAgain t) else b1)"

text \<open>
  The previous body advanced to the predicted head, as \<^verbatim>\<open>update\<close> does when
  the board gives no state: \<^verbatim>\<open>unshift\<close> the predicted head, \<^verbatim>\<open>pop\<close> unless
  the snake grew.
\<close>

definition simulated :: "bool \<Rightarrow> cell \<Rightarrow> cell list \<Rightarrow> cell list" where
  "simulated grewThisTick e ps =
    (if \<not> grewThisTick \<and> length (e # ps) > 1 then butlast (e # ps) else e # ps)"

text \<open>
  Lines 123 to 150 of \<^verbatim>\<open>update\<close>: the score, the effects of
  \<^verbatim>\<open>analyzeBoard\<close> on \<^verbatim>\<open>prevSnake\<close> and \<^verbatim>\<open>prevFood\<close>, and the state
  synthesised from the previous body when the board gives none.
\<close>

definition observeBoard :: "tick \<Rightarrow> bot \<Rightarrow> bot \<times> observation option" where
  "observeBoard t b =
    (let grewThisTick = (score t > lastScore b);
         b1 = b\<lparr>prevFood := (if grewThisTick then None else prevFood b), lastScore := score t\<rparr>
     in case board t of
          Some s \<Rightarrow>
            (b1\<lparr>prevSnake := (if body s \<noteq> [] then Some (body s) else prevSnake b1),
                prevFood := (case food s of Some f \<Rightarrow> Some f | None \<Rightarrow> prevFood b1)\<rparr>,
             Some s)
        | None \<Rightarrow>
            (case prevSnake b1 of
               None \<Rightarrow> (b1, None)
             | Some ps \<Rightarrow>
                if ps = [] then (b1, None)
                else
                  (case expectedHead b1 of
                     Some e \<Rightarrow>
                       (b1\<lparr>prevSnake := Some (simulated grewThisTick e ps),
                           prevSnakeKeys := set (map coordKey (simulated grewThisTick e ps)),
                           prevHead := Some (hd (simulated grewThisTick e ps)),
                           commandPending := False, expectedHead := None\<rparr>,
                        Some \<lparr>head = hd (simulated grewThisTick e ps),
                              tail = last (simulated grewThisTick e ps),
                              body = simulated grewThisTick e ps,
                              food = prevFood b1\<rparr>)
                   | None \<Rightarrow>
                       (b1, Some \<lparr>head = hd ps, tail = last ps, body = ps, food = prevFood b1\<rparr>))))"

text \<open>Lines 159 to 166: the emergency turn in front of a wall.\<close>

definition emergencyTurn :: "bot \<Rightarrow> observation \<Rightarrow> bot" where
  "emergencyTurn b state =
    (if plan b = [] \<and> shouldAvoidWall b state then
       (case chooseSafeDirection b state (map Some (perpendicularDirs b)) of
          Some turn \<Rightarrow> b\<lparr>plan := [turn], commandPending := False\<rparr>
        | None \<Rightarrow> b)
     else b)"

text \<open>Lines 168 to 177: the observed head against the predicted and the previous head.\<close>

definition reconcile :: "bot \<Rightarrow> observation \<Rightarrow> bot" where
  "reconcile b state =
    (if (case expectedHead b of None \<Rightarrow> False | Some e \<Rightarrow> sameCell (head state) e) then
       b\<lparr>commandPending := False, prevHead := Some (head state), expectedHead := None\<rparr>
     else if (case prevHead b of None \<Rightarrow> True | Some p \<Rightarrow> \<not> sameCell (head state) p) then
       b\<lparr>prevHead := Some (head state), commandPending := False, plan := [],
         expectedHead := None\<rparr>
     else b)"

text \<open>
  Lines 189 to 201: the dispatch step, with the keys of the events sent.
  \<^verbatim>\<open>shift()\<close> on an empty plan yields undefined and nothing is sent.
\<close>

definition dispatch :: "bot \<Rightarrow> observation \<Rightarrow> bot \<times> string list" where
  "dispatch b state =
    (if \<not> commandPending b then
       (case plan b of
          [] \<Rightarrow> (b, [])
        | nextDir # rest \<Rightarrow>
            if fst (sendDirection (b\<lparr>plan := rest\<rparr>) nextDir) then
              (b\<lparr>plan := rest, commandPending := True,
                 expectedHead := Some (Cell (cx (head state) + dx nextDir)
                                            (cy (head state) + dy nextDir))\<rparr>,
               snd (sendDirection (b\<lparr>plan := rest\<rparr>) nextDir))
            else (b\<lparr>plan := rest\<rparr>, snd (sendDirection (b\<lparr>plan := rest\<rparr>) nextDir)))
     else (b, []))"

text \<open>Lines 156 to 179: the control-loop state when the plan is looked at.\<close>

definition reconciled :: "bot \<Rightarrow> observation \<Rightarrow> bot" where
  "reconciled b state =
     (reconcile
        (emergencyTurn (updateCurrentDir (b\<lparr>lastBodyLength := length (body state)\<rparr>) state) state)
        state)
     \<lparr>prevSnakeKeys := set (map coordKey (body state))\<rparr>"

text \<open>
  Lines 181 to 183: a new plan when the queue is empty; \<open>None\<close> when
  \<^verbatim>\<open>planPath\<close> does not return.
\<close>

definition replanned :: "bot \<Rightarrow> observation \<Rightarrow> bot option" where
  "replanned b state =
    (if plan b = [] then map_option (\<lambda>p. b\<lparr>plan := p\<rparr>) (planPath b state) else Some b)"

text \<open>Lines 181 to 201, and \<^verbatim>\<open>update()\<close> as a whole.\<close>

definition planAndDispatch :: "bot \<Rightarrow> observation \<Rightarrow> (bot \<times> string list) option" where
  "planAndDispatch b state =
    (case replanned b state of
       None \<Rightarrow> None
     | Some b' \<Rightarrow> if plan b' = [] then Some (b', []) else Some (dispatch b' state))"

definition update :: "tick \<Rightarrow> bot \<Rightarrow> (bot \<times> string list) option" where
  "update t b =
    (if \<not> playing t then Some (ensureGameRunning t b, [])
     else
       (case snd (observeBoard t (ensureGameRunning t b)) of
          None \<Rightarrow> Some (fst (observeBoard t (ensureGameRunning t b)), [])
        | Some state \<Rightarrow>
            planAndDispatch (reconciled (fst (observeBoard t (ensureGameRunning t b))) state) state))"

section \<open>The simulated snake\<close>

text \<open>
  Applying a move sequence to a simulated snake, as the planner's transition
  is specified: the new head must be inside the grid and off the
  collision-check body, which is the full previous body when the move grows
  the snake (mode \<^verbatim>\<open>food\<close> and the new head on the target) and the previous
  body without its last segment otherwise. \<open>None\<close> as soon as a move fails a
  check, otherwise the body after the last move.
\<close>

fun simulate :: "string \<Rightarrow> cell \<Rightarrow> cell list \<Rightarrow> dir list \<Rightarrow> cell list option" where
  "simulate mode t b [] = Some b"
| "simulate mode t b (d # ds) =
    (case b of
       [] \<Rightarrow> None
     | h # _ \<Rightarrow>
        if isInside (Cell (cx h + dx d) (cy h + dy d)) \<and>
           Cell (cx h + dx d) (cy h + dy d) \<notin>
             set (if mode = ''food'' \<and> Cell (cx h + dx d) (cy h + dy d) = t
                  then b else butlast b)
        then simulate mode t
               (if mode = ''food'' \<and> Cell (cx h + dx d) (cy h + dy d) = t
                then Cell (cx h + dx d) (cy h + dy d) # b
                else butlast (Cell (cx h + dx d) (cy h + dy d) # b)) ds
        else None)"

text \<open>
  The state array of a search is well formed when every state has a
  non-empty body led by its head, the first state is the root holding the
  start body, and every other state points to an earlier state from which
  its move is a legal transition to its body.
\<close>

definition nodeOk :: "string \<Rightarrow> cell \<Rightarrow> cell list \<Rightarrow> node list \<Rightarrow> nat \<Rightarrow> bool" where
  "nodeOk mode t body0 states i \<longleftrightarrow>
     nbody (states ! i) \<noteq> [] \<and> nhead (states ! i) = hd (nbody (states ! i)) \<and>
     ((i = 0 \<and> parent (states ! i) = - 1 \<and> move (states ! i) = None \<and>
       nbody (states ! i) = body0) \<or>
      (\<exists>p d. p < i \<and> parent (states ! i) = int p \<and> move (states ! i) = Some d \<and>
             simulate mode t (nbody (states ! p)) [d] = Some (nbody (states ! i))))"

definition wfStates :: "string \<Rightarrow> cell \<Rightarrow> cell list \<Rightarrow> node list \<Rightarrow> bool" where
  "wfStates mode t body0 states \<longleftrightarrow>
     states \<noteq> [] \<and> length states \<le> maxNodes \<and>
     (\<forall>i < length states. nodeOk mode t body0 states i)"

section \<open>Stated properties of bodies\<close>

text \<open>
  A body is a chain when every pair of consecutive cells is at Manhattan
  distance exactly 1.
\<close>

definition chain :: "cell list \<Rightarrow> bool" where
  "chain bdy \<longleftrightarrow> successively (\<lambda>a b. manhattan a b = 1) bdy"

text \<open>
  The \<^verbatim>\<open>slice\<close> of \<^verbatim>\<open>refineSnakeCluster\<close>: the first \<^verbatim>\<open>maxKeep\<close> cells of the
  cluster in descending order of brightness.
\<close>

definition keptSlice :: "(cell \<Rightarrow> real) \<Rightarrow> cell list \<Rightarrow> nat \<Rightarrow> cell list" where
  "keptSlice metrics cs expectedLen =
     take (maxKeepOf (length cs) expectedLen) (sort_key (\<lambda>c. - metrics c) cs)"

text \<open>
  The fields as the constructor sets them, for the score \<open>sc\<close> read from the
  page.
\<close>

definition initialBot :: "int \<Rightarrow> bot" where
  "initialBot sc =
     \<lparr>prevSnakeKeys = {}, prevHead = None, expectedHead = None, commandPending = False,
      plan = [], prevSnake = None, prevFood = None, lastScore = sc,
      currentDir = Some (Cell 1 0), lastBodyLength = 1\<rparr>"

text \<open>
  A snake of two cells heading right, the same snake after a step down, and
  a tick of a running game with score 1 whose board analysis yields a given
  observation.
\<close>

definition twoCells :: observation where
  "twoCells = \<lparr>head = Cell 5 5, tail = Cell 4 5, body = [Cell 5 5, Cell 4 5], food = None\<rparr>"

definition movedDown :: observation where
  "movedDown = \<lparr>head = Cell 5 6, tail = Cell 5 5, body = [Cell 5 6, Cell 5 5], food = None\<rparr>"

definition tickOf :: "observation \<Rightarrow> tick" where
  "tickOf s =
     \<lparr>startActive = False, gameOverActive = False, scoreAtStart = 1, scoreAtAgain = 1,
      playing = True, score = 1, board = Some s\<rparr>"

text \<open>
  A control loop that has sent a command from head \<^verbatim>\<open>(5,5)\<close>, expects the head
  at \<^verbatim>\<open>(6,5)\<close> and still has the move up queued.
\<close>

definition waitingBot :: bot where
  "waitingBot =
     (initialBot 1)\<lparr>prevHead := Some (Cell 5 5), expectedHead := Some (Cell 6 5),
                     commandPending := True, plan := [up], lastBodyLength := 2\<rparr>"

text \<open>A metric table on which every cell has the luma 50.\<close>

definition evenMetrics :: "cell \<Rightarrow> real" where
  "evenMetrics c = 50"

section \<open>Properties of the path planner\<close>

lemma sameCell_eq: "sameCell a b \<longleftrightarrow> a = b"
  by (auto simp: sameCell_def cell.expand)

lemma list_ex_cell: "list_ex (\<lambda>seg. cx seg = a \<and> cy seg = b) xs \<longleftrightarrow> Cell a b \<in> set xs"
  by (induction xs) auto

lemma simulate_append:
  "simulate mode t b (ds @ es) = (case simulate mode t b ds of None \<Rightarrow> None | Some b' \<Rightarrow> simulate mode t b' es)"
  by (induction ds arbitrary: b) (auto split: list.splits)

lemma tryDir_cases:
  assumes "nbody st \<noteq> []" "nhead st = hd (nbody st)"
  shows "tryDir mode t cursor st (states, visited) d = (states, visited) \<or>
         (\<exists>v. tryDir mode t cursor st (states, visited) d = (states, v)) \<or>
         (\<exists>nb v. tryDir mode t cursor st (states, visited) d =
                 (states @ [\<lparr>nhead = hd nb, nbody = nb, parent = int cursor, move = Some d\<rparr>], v) \<and>
               length states < maxNodes \<and> nb \<noteq> [] \<and>
               simulate mode t (nbody st) [d] = Some nb)"
proof -
  obtain h rest where b: "nbody st = h # rest" using assms(1) by (cases "nbody st") auto
  then have h: "nhead st = h" using assms(2) by simp
  show ?thesis
    unfolding tryDir_def Let_def
    by (auto simp add: b h sameCell_eq list_ex_cell)
qed


lemma wfStates_snoc:
  assumes wf: "wfStates mode t body0 ss" and len: "length ss < maxNodes"
    and cur: "cursor < length ss" and nb: "nb \<noteq> []"
    and sim: "simulate mode t (nbody (ss ! cursor)) [d] = Some nb"
  shows "wfStates mode t body0
           (ss @ [\<lparr>nhead = hd nb, nbody = nb, parent = int cursor, move = Some d\<rparr>])"
proof -
  let ?n = "\<lparr>nhead = hd nb, nbody = nb, parent = int cursor, move = Some d\<rparr>"
  have old: "nodeOk mode t body0 (ss @ [?n]) i" if i: "i < length ss" for i
  proof -
    from wf i have ok: "nodeOk mode t body0 ss i" by (simp add: wfStates_def)
    have nth: "\<And>j. j \<le> i \<Longrightarrow> (ss @ [?n]) ! j = ss ! j" using i by (simp add: nth_append)
    from ok show ?thesis
      unfolding nodeOk_def using nth[of i] nth
      by (metis less_or_eq_imp_le order_refl)
  qed
  have new: "nodeOk mode t body0 (ss @ [?n]) (length ss)"
  proof -
    have c: "(ss @ [?n]) ! cursor = ss ! cursor" using cur by (simp add: nth_append)
    show ?thesis
      unfolding nodeOk_def
      by (intro conjI disjI2 exI[of _ cursor] exI[of _ d])
         (use nb sim cur c in \<open>simp_all del: simulate.simps\<close>)
  qed
  have "nodeOk mode t body0 (ss @ [?n]) i" if "i < length (ss @ [?n])" for i
    using that old new by (cases "i = length ss") auto
  then show ?thesis using wf len by (simp add: wfStates_def)
qed

lemma foldl_tryDir_wf:
  assumes "wfStates mode t body0 ss" "cursor < length ss" "ss ! cursor = st"
  shows "wfStates mode t body0 (fst (foldl (tryDir mode t cursor st) (ss, vs) ds)) \<and>
         cursor < length (fst (foldl (tryDir mode t cursor st) (ss, vs) ds))"
  using assms
proof (induction ds arbitrary: ss vs)
  case Nil
  then show ?case by simp
next
  case (Cons d ds)
  from Cons.prems have ok: "nodeOk mode t body0 ss cursor" by (simp add: wfStates_def)
  then have st: "nbody st \<noteq> []" "nhead st = hd (nbody st)"
    using Cons.prems(3) by (auto simp: nodeOk_def)
  from tryDir_cases[OF st, of mode t cursor ss vs d]
  consider v where "tryDir mode t cursor st (ss, vs) d = (ss, v)"
    | nb v where "tryDir mode t cursor st (ss, vs) d =
                 (ss @ [\<lparr>nhead = hd nb, nbody = nb, parent = int cursor, move = Some d\<rparr>], v)"
        "length ss < maxNodes" "nb \<noteq> []" "simulate mode t (nbody st) [d] = Some nb"
    by blast
  then show ?case
  proof cases
    case 1
    then show ?thesis using Cons.IH[OF Cons.prems] by simp
  next
    case 2
    let ?ss = "ss @ [\<lparr>nhead = hd nb, nbody = nb, parent = int cursor, move = Some d\<rparr>]"
    have wf: "wfStates mode t body0 ?ss"
      using wfStates_snoc[OF Cons.prems(1) 2(2) Cons.prems(2) 2(3)] 2(4) Cons.prems(3) by simp
    have "cursor < length ?ss" "?ss ! cursor = st"
      using Cons.prems(2,3) by (simp_all add: nth_append)
    from Cons.IH[OF wf this] show ?thesis using 2(1) by simp
  qed
qed

lemma findPath_loop_stop:
  assumes "\<not> (cursor < length states \<and> cursor < maxNodes)"
  shows "findPath_loop mode t (states, visited) cursor = Exhausted states cursor"
  by (subst findPath_loop.simps) (rule if_not_P[OF assms])

lemma findPath_loop_goal:
  assumes c: "cursor < length states \<and> cursor < maxNodes"
    and g: "sameCell (nhead (states ! cursor)) t \<and>
            (mode = ''food'' \<or> parent (states ! cursor) \<noteq> - 1)"
  shows "findPath_loop mode t (states, visited) cursor = Found states cursor"
  by (subst findPath_loop.simps) (simp only: if_P[OF c] if_P[OF g])

lemma findPath_loop_step:
  assumes c: "cursor < length states \<and> cursor < maxNodes"
    and g: "\<not> (sameCell (nhead (states ! cursor)) t \<and>
               (mode = ''food'' \<or> parent (states ! cursor) \<noteq> - 1))"
  shows "findPath_loop mode t (states, visited) cursor =
         findPath_loop mode t
           (foldl (tryDir mode t cursor (states ! cursor)) (states, visited) DIRS) (cursor + 1)"
  by (subst findPath_loop.simps) (simp only: if_P[OF c] if_not_P[OF g])

lemma findPath_loop_Found:
  assumes "wfStates mode t body0 (fst sv)" "findPath_loop mode t sv cursor = Found sts c"
  shows "wfStates mode t body0 sts \<and> c < length sts \<and> nhead (sts ! c) = t \<and>
         (mode = ''food'' \<or> parent (sts ! c) \<noteq> - 1)"
  using assms
proof (induction mode t sv cursor rule: findPath_loop.induct)
  case (1 mode target states visited cursor)
  show ?case
  proof (cases "cursor < length states \<and> cursor < maxNodes")
    case False
    then show ?thesis using "1.prems"(2) by (simp add: findPath_loop_stop)
  next
    case True
    show ?thesis
    proof (cases "sameCell (nhead (states ! cursor)) target \<and>
                  (mode = ''food'' \<or> parent (states ! cursor) \<noteq> - 1)")
      case goal: True
      have "findPath_loop mode target (states, visited) cursor = Found states cursor"
        by (rule findPath_loop_goal[OF True goal])
      then show ?thesis using "1.prems" True goal by (auto simp: sameCell_eq)
    next
      case nogoal: False
      let ?sv = "foldl (tryDir mode target cursor (states ! cursor)) (states, visited) DIRS"
      have eq: "findPath_loop mode target ?sv (cursor + 1) = Found sts c"
        using "1.prems"(2) findPath_loop_step[OF True nogoal] by simp
      have wf: "wfStates mode target body0 (fst ?sv)"
        using foldl_tryDir_wf[of mode target body0 states cursor "states ! cursor" visited DIRS]
          "1.prems"(1) True by simp
      from "1.IH"[OF True nogoal wf eq] show ?thesis .
    qed
  qed
qed

lemma findPath_loop_bounds:
  assumes "wfStates mode t body0 (fst sv)" "cursor \<le> maxNodes"
  shows "case findPath_loop mode t sv cursor of
           Found sts c \<Rightarrow> length sts \<le> maxNodes \<and> c < maxNodes
         | Exhausted sts c \<Rightarrow> length sts \<le> maxNodes \<and> c \<le> maxNodes"
  using assms
proof (induction mode t sv cursor rule: findPath_loop.induct)
  case (1 mode target states visited cursor)
  have len: "length states \<le> maxNodes" using "1.prems"(1) by (simp add: wfStates_def)
  show ?case
  proof (cases "cursor < length states \<and> cursor < maxNodes")
    case False
    then show ?thesis using "1.prems"(2) len by (simp add: findPath_loop_stop)
  next
    case True
    show ?thesis
    proof (cases "sameCell (nhead (states ! cursor)) target \<and>
                  (mode = ''food'' \<or> parent (states ! cursor) \<noteq> - 1)")
      case goal: True
      show ?thesis using True len by (simp add: findPath_loop_goal[OF True goal])
    next
      case nogoal: False
      let ?sv = "foldl (tryDir mode target cursor (states ! cursor)) (states, visited) DIRS"
      have eq: "findPath_loop mode target (states, visited) cursor =
                findPath_loop mode target ?sv (cursor + 1)"
        by (rule findPath_loop_step[OF True nogoal])
      have wf: "wfStates mode target body0 (fst ?sv)"
        using foldl_tryDir_wf[of mode target body0 states cursor "states ! cursor" visited DIRS]
          "1.prems"(1) True by simp
      have "cursor + 1 \<le> maxNodes" using True by simp
      from "1.IH"[OF True nogoal wf this] show ?thesis by (simp only: eq)
    qed
  qed
qed

lemma reconstruct_wf:
  assumes wf: "wfStates mode t body0 sts"
  shows "i < length sts \<Longrightarrow>
         \<exists>ds. simulate mode t body0 ds = Some (nbody (sts ! i)) \<and>
              (\<forall>acc. reconstructPath_loop sts (int i) acc = Some (ds @ rev acc)) \<and>
              (parent (sts ! i) \<noteq> - 1 \<longrightarrow> ds \<noteq> [])"
proof (induction i rule: less_induct)
  case (less i)
  from wf less.prems have ok: "nodeOk mode t body0 sts i" by (simp add: wfStates_def)
  then have "(i = 0 \<and> parent (sts ! i) = - 1 \<and> move (sts ! i) = None \<and>
               nbody (sts ! i) = body0) \<or>
              (\<exists>p d. p < i \<and> parent (sts ! i) = int p \<and> move (sts ! i) = Some d \<and>
                simulate mode t (nbody (sts ! p)) [d] = Some (nbody (sts ! i)))"
    by (simp only: nodeOk_def)
  then consider
      (root) "i = 0" "parent (sts ! i) = - 1" "move (sts ! i) = None" "nbody (sts ! i) = body0"
    | (child) p d where "p < i" "parent (sts ! i) = int p" "move (sts ! i) = Some d"
        "simulate mode t (nbody (sts ! p)) [d] = Some (nbody (sts ! i))"
    by (elim disjE conjE exE) blast+
  then show ?case
  proof cases
    case root
    have "reconstructPath_loop sts (int i) acc = Some ([] @ rev acc)" for acc
      using root less.prems
      by (subst reconstructPath_loop.simps, simp, subst reconstructPath_loop.simps, simp)
    then show ?thesis using root by (intro exI[of _ "[]"]) simp
  next
    case child
    from less.IH[OF child(1)] child(1) less.prems obtain ds where
      ds: "simulate mode t body0 ds = Some (nbody (sts ! p))"
          "\<And>acc. reconstructPath_loop sts (int p) acc = Some (ds @ rev acc)"
      by auto
    have "reconstructPath_loop sts (int i) acc = Some ((ds @ [d]) @ rev acc)" for acc
      using child less.prems ds(2)[of "acc @ [d]"]
      by (subst reconstructPath_loop.simps) simp
    moreover have "simulate mode t body0 (ds @ [d]) = Some (nbody (sts ! i))"
      using ds(1) child(4) by (simp add: simulate_append del: simulate.simps)
    ultimately show ?thesis by (intro exI[of _ "ds @ [d]"]) simp
  qed
qed


lemma wfStates_root:
  "wfStates mode t (h # rest) [\<lparr>nhead = h, nbody = h # rest, parent = - 1, move = None\<rparr>]"
  by (simp add: wfStates_def nodeOk_def maxNodes_def)

lemma findPath_result:
  "findPath bdy tgt mode = Some None \<or>
   (\<exists>t ds b'. tgt = Some t \<and> findPath bdy tgt mode = Some (Some ds) \<and>
       simulate mode t bdy ds = Some b' \<and> b' \<noteq> [] \<and> hd b' = t \<and>
       (mode \<noteq> ''food'' \<longrightarrow> ds \<noteq> []))"
proof (cases tgt)
  case None
  then show ?thesis by (simp add: findPath_def)
next
  case (Some t)
  show ?thesis
  proof (cases bdy)
    case Nil
    then show ?thesis using Some by (simp add: findPath_def)
  next
    case (Cons h rest)
    let ?root = "\<lparr>nhead = h, nbody = h # rest, parent = - 1, move = None\<rparr>"
    let ?run = "findPath_loop mode t ([?root], {bodyKey (h # rest)}) 0"
    have wf0: "wfStates mode t (h # rest) (fst ([?root], {bodyKey (h # rest)}))"
      by (simp add: wfStates_root)
    show ?thesis
    proof (cases ?run)
      case (Exhausted sts c)
      then show ?thesis using Some Cons by (simp add: findPath_def)
    next
      case (Found sts c)
      from findPath_loop_Found[OF wf0 Found]
      have wf: "wfStates mode t (h # rest) sts" and c: "c < length sts"
        and goal: "nhead (sts ! c) = t" and par: "mode = ''food'' \<or> parent (sts ! c) \<noteq> - 1"
        by simp_all
      from reconstruct_wf[OF wf c] obtain ds where
        ds: "simulate mode t (h # rest) ds = Some (nbody (sts ! c))"
            "\<And>acc. reconstructPath_loop sts (int c) acc = Some (ds @ rev acc)"
            "parent (sts ! c) \<noteq> - 1 \<longrightarrow> ds \<noteq> []"
        by blast
      from wf c have ok: "nodeOk mode t (h # rest) sts c" by (simp add: wfStates_def)
      then have nb: "nbody (sts ! c) \<noteq> []" "hd (nbody (sts ! c)) = t"
        using goal by (simp_all add: nodeOk_def)
      have "findPath bdy tgt mode = Some (Some ds)"
        using Some Cons Found ds(2)[of "[]"] by (simp add: findPath_def reconstructPath_def)
      then show ?thesis using Some Cons ds(1,3) nb par by auto
    qed
  qed
qed

lemma dir_sel:
  "dx up = 0" "dy up = - 1" "dx right = 1" "dy right = 0"
  "dx down = 0" "dy down = 1" "dx left = - 1" "dy left = 0"
  by (simp_all add: up_def right_def down_def left_def)

lemmas findPath_eval =
  findPath_def findPath_loop.simps tryDir_def isInside_def grid_def sameCell_def bodyKey_def
  DIRS_def maxNodes_def Let_def dir_sel reconstructPath_def reconstructPath_loop.simps

text \<open>
  C1. Whenever \<^verbatim>\<open>findPath(body, target, mode)\<close> returns a move sequence,
  applying the moves in order to the simulated snake succeeds: every new head
  is inside the 28 by 28 grid and off that step's collision-check body (the
  full previous body when the move reaches the target in mode \<^verbatim>\<open>food\<close>, the
  previous body without its last segment otherwise), and the walk ends with
  the head on the target. In particular the head produced by the first
  returned move is not a cell of the current body without its last segment.
  No assumption on the start body is needed.
\<close>

theorem findPath_moves_safe:
  assumes "findPath bdy (Some t) mode = Some (Some moves)"
  shows "(\<exists>b'. simulate mode t bdy moves = Some b' \<and> b' \<noteq> [] \<and> hd b' = t) \<and>
         (case moves of
            [] \<Rightarrow> True
          | d # _ \<Rightarrow> Cell (cx (hd bdy) + dx d) (cy (hd bdy) + dy d) \<notin> set (butlast bdy))"
proof -
  from findPath_result[of bdy "Some t" mode] assms
  obtain b' where sim: "simulate mode t bdy moves = Some b'" "b' \<noteq> []" "hd b' = t"
    by auto
  have "Cell (cx (hd bdy) + dx d) (cy (hd bdy) + dy d) \<notin> set (butlast bdy)"
    if "moves = d # ds" for d ds
    using sim(1) that by (auto split: list.splits if_splits dest: in_set_butlastD)
  then show ?thesis using sim by (auto split: list.splits)
qed

theorem findPath_moves_safe_witness:
  "findPath [Cell 14 14, Cell 13 14] (Some (Cell 14 13)) ''food'' = Some (Some [up]) \<and>
   simulate ''food'' (Cell 14 13) [Cell 14 14, Cell 13 14] [up] = Some [Cell 14 13, Cell 14 14, Cell 13 14] \<and>
   Cell 14 13 \<notin> set (butlast [Cell 14 14, Cell 13 14])"
proof -
  have h: "findPath [Cell 14 14, Cell 13 14] (Some (Cell 14 13)) ''food'' = Some (Some [up])"
    by (simp add: findPath_eval)
  from findPath_moves_safe[OF h] show ?thesis using h
    by (simp add: isInside_def grid_def dir_sel)
qed

text \<open>
  C4. In mode \<^verbatim>\<open>tail\<close> \<^verbatim>\<open>findPath\<close> returns, and never the empty move
  sequence: the root standing on the target is not accepted as a goal. In
  mode \<^verbatim>\<open>food\<close>, when the head of the body is the target, the root is
  accepted and the empty sequence is returned.
\<close>

theorem findPath_tail_nonempty_food_at_target:
  "(\<exists>r. findPath bdy tgt ''tail'' = Some r \<and> r \<noteq> Some []) \<and>
   findPath (h # rest) (Some h) ''food'' = Some (Some [])"
proof
  show "\<exists>r. findPath bdy tgt ''tail'' = Some r \<and> r \<noteq> Some []"
    using findPath_result[of bdy tgt "''tail''"] by auto
next
  let ?root = "\<lparr>nhead = h, nbody = h # rest, parent = - 1, move = None\<rparr>"
  have "findPath_loop ''food'' h ([?root], {bodyKey (h # rest)}) 0 = Found [?root] 0"
    by (rule findPath_loop_goal) (simp_all add: maxNodes_def sameCell_def)
  moreover have "reconstructPath [?root] 0 = Some []"
    unfolding reconstructPath_def
    by (subst reconstructPath_loop.simps, simp, subst reconstructPath_loop.simps, simp)
  ultimately show "findPath (h # rest) (Some h) ''food'' = Some (Some [])"
    by (simp add: findPath_def)
qed

text \<open>
  C5. \<^verbatim>\<open>findPath\<close> always returns. The node cap is 20000; the search loop
  stores at most 20000 states and expands at most 20000 of them (the index
  of a goal state is below 20000), and when the loop ends without a goal,
  be it by the cap or by running out of states, \<^verbatim>\<open>findPath\<close> returns null.
\<close>

theorem findPath_terminates_within_cap:
  "(\<exists>r. findPath bdy tgt mode = Some r) \<and> maxNodes = 20000 \<and>
   (case findPath_loop mode t
           ([\<lparr>nhead = h, nbody = h # rest, parent = - 1, move = None\<rparr>],
            {bodyKey (h # rest)}) 0 of
      Found sts c \<Rightarrow> length sts \<le> maxNodes \<and> c < maxNodes
    | Exhausted sts c \<Rightarrow>
        length sts \<le> maxNodes \<and> c \<le> maxNodes \<and>
        findPath (h # rest) (Some t) mode = Some None)"
proof -
  let ?root = "\<lparr>nhead = h, nbody = h # rest, parent = - 1, move = None\<rparr>"
  have wf0: "wfStates mode t (h # rest) (fst ([?root], {bodyKey (h # rest)}))"
    by (simp add: wfStates_root)
  have "\<exists>r. findPath bdy tgt mode = Some r"
    using findPath_result[of bdy tgt mode] by auto
  moreover have "case findPath_loop mode t ([?root], {bodyKey (h # rest)}) 0 of
      Found sts c \<Rightarrow> length sts \<le> maxNodes \<and> c < maxNodes
    | Exhausted sts c \<Rightarrow>
        length sts \<le> maxNodes \<and> c \<le> maxNodes \<and>
        findPath (h # rest) (Some t) mode = Some None"
    using findPath_loop_bounds[OF wf0, of 0]
    by (auto simp: findPath_def split: search.splits)
  ultimately show ?thesis by (simp add: maxNodes_def)
qed


text \<open>
  C6. With the body \<^verbatim>\<open>[(14,14),(13,14),(12,14)]\<close> and the food at
  \<^verbatim>\<open>(14,10)\<close>, \<^verbatim>\<open>findPath\<close> in mode \<^verbatim>\<open>food\<close> returns the four moves
  up, up, up, up.
\<close>

theorem findPath_example_four_up:
  "findPath [Cell 14 14, Cell 13 14, Cell 12 14] (Some (Cell 14 10)) ''food'' =
   Some (Some [up, up, up, up])"
  by (simp add: findPath_eval)


section \<open>Properties of the reconstruction\<close>

lemma truncateBody_length: "length (truncateBody w n) \<le> n"
  by (simp add: truncateBody_def)

lemma padBody_length: "length bdy \<le> n \<Longrightarrow> length (padBody b bdy n) \<le> n"
  by (auto simp: padBody_def split: option.splits)

lemma reconstructSnake_Some:
  assumes "reconstructSnake b cl m n = Some s"
  obtains c walked where "cl = Some c" "cells c \<noteq> []"
    "snakeWalk (cset c) {} [] (chooseHead b (cells c) (cset c)) None = Some walked"
    "body s = padBody b (truncateBody walked n) n" "n \<le> length (body s)"
  using assms
  by (auto simp: reconstructSnake_def Let_def split: option.splits if_splits)

lemmas perception_eval =
  reconstructSnake_def chooseHead_def snakeWalk.simps getNeighbors_def coordKey_def
  manhattan_def sameCell_def grid_def startCell_def truncateBody_def padBody_def
  initialBot_def Let_def

text \<open>
  C2. Whenever \<^verbatim>\<open>reconstructSnake(cluster, metrics, expectedLen)\<close> returns a
  snake, its body has exactly \<^verbatim>\<open>expectedLen\<close> cells; with the length
  \<^verbatim>\<open>analyzeBoard\<close> passes for a score \<open>sc \<ge> 0\<close>, that is \<open>sc + 1\<close> cells.
\<close>

theorem reconstructSnake_length:
  assumes "reconstructSnake b cl m n = Some s"
  shows "length (body s) = n \<and>
         (0 \<le> sc \<and> n = boardExpectedLen sc \<longrightarrow> int (length (body s)) = sc + 1)"
proof -
  from assms obtain c walked where
    "cl = Some c" "body s = padBody b (truncateBody walked n) n" "n \<le> length (body s)"
    by (rule reconstructSnake_Some)
  then have "length (body s) = n"
    using padBody_length[OF truncateBody_length, of b walked n] by simp
  then show ?thesis by (auto simp: boardExpectedLen_def expectedLength_def)
qed

text \<open>
  An instance: a cluster of the single cell \<^verbatim>\<open>(14,14)\<close> at score 0.
\<close>

theorem reconstructSnake_length_witness:
  "reconstructSnake (initialBot 0) (Some \<lparr>cells = [Cell 14 14], cset = {(14, 14)}\<rparr>)
     evenMetrics 1 =
     Some \<lparr>head = Some (Cell 14 14), tail = Cell 14 14, body = [Cell 14 14]\<rparr> \<and>
   (0::int) \<le> 0 \<and> 1 = boardExpectedLen 0 \<and>
   length (body \<lparr>head = Some (Cell 14 14), tail = Cell 14 14, body = [Cell 14 14]\<rparr>) = 1 \<and>
   int (length (body \<lparr>head = Some (Cell 14 14), tail = Cell 14 14, body = [Cell 14 14]\<rparr>)) = 0 + 1"
proof -
  have h: "reconstructSnake (initialBot 0) (Some \<lparr>cells = [Cell 14 14], cset = {(14, 14)}\<rparr>)
             evenMetrics 1 =
           Some \<lparr>head = Some (Cell 14 14), tail = Cell 14 14, body = [Cell 14 14]\<rparr>"
    by (simp add: perception_eval)
  from reconstructSnake_length[OF h, of 0] h show ?thesis
    by (simp add: boardExpectedLen_def expectedLength_def)
qed

lemma coordKey_inj: "coordKey a = coordKey b \<longleftrightarrow> a = b"
  by (auto simp: coordKey_def cell.expand)

lemma getNeighbors_manhattan: "n \<in> set (getNeighbors c s) \<Longrightarrow> manhattan c n = 1"
  by (auto simp: getNeighbors_def manhattan_def simp del: filter.simps)

lemma chain_snoc: "chain (xs @ [c]) \<longleftrightarrow> chain xs \<and> (xs \<noteq> [] \<longrightarrow> manhattan (last xs) c = 1)"
  by (auto simp: chain_def successively_append_iff)

lemma chain_take: "chain xs \<Longrightarrow> chain (take n xs)"
  by (simp add: chain_def successively_conv_nth)

lemma snakeWalk_chain:
  assumes "snakeWalk s visited bdy current prev = Some w"
    "distinct bdy" "chain bdy" "coordKey ` set bdy \<subseteq> visited"
    "coordKey current \<notin> visited" "bdy \<noteq> [] \<longrightarrow> manhattan (last bdy) current = 1"
  shows "distinct w \<and> chain w"
  using assms
proof (induction s visited bdy current prev rule: snakeWalk.induct)
  case (1 s visited bdy current prev)
  let ?P = "\<lambda>candidate.
              \<not> (case prev of None \<Rightarrow> False | Some p \<Rightarrow> sameCell candidate p) \<and>
              coordKey candidate \<notin> insert (coordKey current) visited"
  have cur: "current \<notin> set bdy" using "1.prems"(4,5) by auto
  have d: "distinct (bdy @ [current])" using "1.prems"(2) cur by simp
  have c: "chain (bdy @ [current])" using "1.prems"(3,6) by (simp add: chain_snoc)
  show ?case
  proof (cases "find ?P (getNeighbors current s)")
    case None
    then have "w = bdy @ [current]" using "1.prems"(1) by (simp add: snakeWalk.simps)
    then show ?thesis using d c by simp
  next
    case (Some nxt)
    then have nxt: "nxt \<in> set (getNeighbors current s)" "?P nxt"
      by (auto simp: find_Some_iff)
    have guard: "\<not> length (bdy @ [current]) > card s + 2"
      using "1.prems"(1) Some by (auto simp: snakeWalk.simps split: if_splits)
    have rec: "snakeWalk s (insert (coordKey current) visited) (bdy @ [current]) nxt (Some current) = Some w"
      using "1.prems"(1) Some guard by (simp add: snakeWalk.simps)
    show ?thesis
    proof (rule "1.IH"[OF Some guard rec d c])
      show "coordKey ` set (bdy @ [current]) \<subseteq> insert (coordKey current) visited"
        using "1.prems"(4) by auto
      show "coordKey nxt \<notin> insert (coordKey current) visited" using nxt(2) by simp
      show "bdy @ [current] \<noteq> [] \<longrightarrow> manhattan (last (bdy @ [current])) nxt = 1"
        using getNeighbors_manhattan[OF nxt(1)] by simp
    qed
  qed
qed

lemma padBody_prefix: "take (length bdy) (padBody b bdy n) = bdy"
  by (auto simp: padBody_def split: option.splits)

lemma padBody_full: "n \<le> length bdy \<Longrightarrow> padBody b bdy n = bdy"
  by (auto simp: padBody_def split: option.splits)

text \<open>
  C3. Every body returned by a successful \<^verbatim>\<open>reconstructSnake\<close>, a body
  completed by padding from the previous tick's snake included, is to have
  pairwise distinct cells with every pair of consecutive cells at Manhattan
  distance exactly 1. The code breaks this when it pads: the loop at the end
  of \<^verbatim>\<open>reconstructSnake\<close> appends the last cells of \<^verbatim>\<open>prevSnake\<close> from its end
  backwards. With the previous snake \<^verbatim>\<open>[(4,5),(3,5),(2,5)]\<close>, the head
  expected at \<^verbatim>\<open>(5,5)\<close> and only that cell in the cluster, the walk gives one
  cell, the two missing ones are appended as \<^verbatim>\<open>(2,5)\<close>, \<^verbatim>\<open>(3,5)\<close>, and the
  returned body \<^verbatim>\<open>[(5,5),(2,5),(3,5)]\<close> is not a chain.
\<close>

theorem reconstructSnake_padding_breaks_chain:
  "reconstructSnake
     ((initialBot 2)\<lparr>prevHead := Some (Cell 4 5), expectedHead := Some (Cell 5 5),
                      prevSnake := Some [Cell 4 5, Cell 3 5, Cell 2 5], commandPending := True\<rparr>)
     (Some \<lparr>cells = [Cell 5 5], cset = {(5, 5)}\<rparr>) evenMetrics 3 =
     Some \<lparr>head = Some (Cell 5 5), tail = Cell 3 5, body = [Cell 5 5, Cell 2 5, Cell 3 5]\<rparr> \<and>
   \<not> (distinct [Cell 5 5, Cell 2 5, Cell 3 5] \<and> chain [Cell 5 5, Cell 2 5, Cell 3 5])"
  by (simp add: perception_eval chain_def)

text \<open>
  The same happens where the padding is meant to help. The snake
  \<^verbatim>\<open>[(4,5),(3,5),(2,5)]\<close> has moved one step to the right and its last cell
  is not detected: the body is \<^verbatim>\<open>[(5,5),(4,5),(3,5)]\<close>, and the code returns
  \<^verbatim>\<open>[(5,5),(4,5),(2,5)]\<close>. When the snake has not moved and its last two cells
  are not detected, the right cells come back in the wrong order. A cell of
  the walk can also be appended a second time.
\<close>

lemma reconstructSnake_padding_after_step:
  "reconstructSnake
     ((initialBot 2)\<lparr>prevHead := Some (Cell 4 5), expectedHead := Some (Cell 5 5),
                      prevSnake := Some [Cell 4 5, Cell 3 5, Cell 2 5], commandPending := True\<rparr>)
     (Some \<lparr>cells = [Cell 5 5, Cell 4 5], cset = {(5, 5), (4, 5)}\<rparr>) evenMetrics 3 =
     Some \<lparr>head = Some (Cell 5 5), tail = Cell 2 5, body = [Cell 5 5, Cell 4 5, Cell 2 5]\<rparr> \<and>
   \<not> chain [Cell 5 5, Cell 4 5, Cell 2 5]"
  by (simp add: perception_eval chain_def)

lemma reconstructSnake_padding_unmoved:
  "reconstructSnake
     ((initialBot 2)\<lparr>prevHead := Some (Cell 4 5),
                      prevSnake := Some [Cell 4 5, Cell 3 5, Cell 2 5]\<rparr>)
     (Some \<lparr>cells = [Cell 4 5], cset = {(4, 5)}\<rparr>) evenMetrics 3 =
     Some \<lparr>head = Some (Cell 4 5), tail = Cell 3 5, body = [Cell 4 5, Cell 2 5, Cell 3 5]\<rparr> \<and>
   \<not> chain [Cell 4 5, Cell 2 5, Cell 3 5]"
  by (simp add: perception_eval chain_def)

lemma reconstructSnake_padding_repeats_cell:
  "reconstructSnake
     ((initialBot 2)\<lparr>prevHead := Some (Cell 4 5), expectedHead := Some (Cell 3 5),
                      prevSnake := Some [Cell 4 5, Cell 3 5, Cell 2 5], commandPending := True\<rparr>)
     (Some \<lparr>cells = [Cell 3 5, Cell 2 5], cset = {(3, 5), (2, 5)}\<rparr>) evenMetrics 3 =
     Some \<lparr>head = Some (Cell 3 5), tail = Cell 2 5, body = [Cell 3 5, Cell 2 5, Cell 2 5]\<rparr> \<and>
   \<not> distinct [Cell 3 5, Cell 2 5, Cell 2 5]"
  by (simp add: perception_eval)

text \<open>
  The walk itself keeps the property: in every returned body the cells that
  come from the walk are pairwise distinct and consecutive ones are at
  Manhattan distance 1. They are the first \<open>length walked\<close> cells of the body,
  and the whole body whenever the walk supplies at least \<^verbatim>\<open>expectedLen\<close>
  cells.
\<close>

lemma reconstructSnake_walked_chain:
  assumes "reconstructSnake b (Some cl) m n = Some s"
    and "snakeWalk (cset cl) {} [] (chooseHead b (cells cl) (cset cl)) None = Some walked"
  shows "distinct (take (length walked) (body s)) \<and> chain (take (length walked) (body s)) \<and>
         (n \<le> length walked \<longrightarrow> distinct (body s) \<and> chain (body s))"
proof -
  from assms(1) obtain c w where
    r: "Some cl = Some c"
       "snakeWalk (cset c) {} [] (chooseHead b (cells c) (cset c)) None = Some w"
       "body s = padBody b (truncateBody w n) n"
    by (rule reconstructSnake_Some)
  then have w: "w = walked" using assms(2) by simp
  have dc: "distinct walked \<and> chain walked"
    by (rule snakeWalk_chain[OF assms(2)]) (simp_all add: chain_def)
  have t: "distinct (truncateBody walked n) \<and> chain (truncateBody walked n)"
    using dc by (simp add: truncateBody_def chain_take)
  have pre: "take (length (truncateBody walked n)) (body s) = truncateBody walked n"
    using r(3) w by (simp add: padBody_prefix)
  have full: "body s = truncateBody walked n" if "n \<le> length walked"
    using r(3) w that by (simp add: padBody_full truncateBody_def)
  have "take (length walked) (body s) = truncateBody walked n"
  proof (cases "n \<le> length walked")
    case True
    then show ?thesis using full by (simp add: truncateBody_def)
  next
    case False
    then show ?thesis using pre by (simp add: truncateBody_def)
  qed
  then show ?thesis using t full by auto
qed

section \<open>Properties of the refinement\<close>

lemma uniqueCells_sub:
  "\<exists>ys. uniqueCells K xs seen acc = acc @ ys \<and> subseq ys xs"
proof (induction xs arbitrary: seen acc)
  case Nil
  then show ?case by simp
next
  case (Cons c rest)
  show ?case
  proof (cases "coordKey c \<in> seen")
    case True
    from Cons.IH[of seen acc] obtain ys where
      "uniqueCells K rest seen acc = acc @ ys" "subseq ys rest" by blast
    then show ?thesis using True by (intro exI[of _ ys]) (simp add: list_emb_Cons)
  next
    case False
    show ?thesis
    proof (cases "K \<le> length (acc @ [c])")
      case True
      then show ?thesis using False by (intro exI[of _ "[c]"]) simp
    next
      case nb: False
      from Cons.IH[of "insert (coordKey c) seen" "acc @ [c]"] obtain ys where
        "uniqueCells K rest (insert (coordKey c) seen) (acc @ [c]) = (acc @ [c]) @ ys"
        "subseq ys rest" by blast
      then show ?thesis using False nb by (intro exI[of _ "c # ys"]) simp
    qed
  qed
qed

lemma uniqueCells_set:
  "length acc + length xs \<le> K \<Longrightarrow> seen = coordKey ` set acc \<Longrightarrow>
   set (uniqueCells K xs seen acc) = set acc \<union> set xs"
proof (induction xs arbitrary: seen acc)
  case Nil
  then show ?case by simp
next
  case (Cons c rest)
  show ?case
  proof (cases "coordKey c \<in> seen")
    case True
    then have "c \<in> set acc" using Cons.prems(2) by (auto simp: coordKey_inj)
    moreover have "set (uniqueCells K rest seen acc) = set acc \<union> set rest"
      using Cons.prems by (intro Cons.IH) simp_all
    ultimately show ?thesis using True by auto
  next
    case False
    show ?thesis
    proof (cases "K \<le> length (acc @ [c])")
      case True
      then have "length rest = 0" using Cons.prems(1) by (simp del: length_0_conv)
      then have "rest = []" by simp
      then show ?thesis using False True by simp
    next
      case nb: False
      have "set (uniqueCells K rest (insert (coordKey c) seen) (acc @ [c])) =
            set (acc @ [c]) \<union> set rest"
        using Cons.prems by (intro Cons.IH) simp_all
      then show ?thesis using False nb by simp
    qed
  qed
qed

lemma filtered_set:
  "set (map snd (filter (\<lambda>(i, c). P c \<or> i < n) (enumerate 0 xs))) =
   {c \<in> set xs. P c} \<union> set (take n xs)"
proof -
  have "set (map snd (filter (\<lambda>(i, c). P c \<or> i < n) (enumerate 0 xs))) =
        {xs ! i | i. i < length xs \<and> (P (xs ! i) \<or> i < n)}"
    by (force simp: in_set_enumerate_eq image_iff)
  also have "\<dots> = {c \<in> set xs. P c} \<union> set (take n xs)"
    by (auto simp: in_set_conv_nth) metis+
  finally show ?thesis .
qed

lemma filtered_subseq:
  "subseq (map snd (filter Q (enumerate 0 xs))) xs"
proof -
  have "subseq (map snd (filter Q (enumerate 0 xs))) (map snd (enumerate 0 xs))"
    by (intro subseq_map) simp
  then show ?thesis by (simp add: enumerate_eq_zip)
qed

lemma refineSnakeCluster_unfold:
  assumes "cells cl \<noteq> []"
  shows "refineSnakeCluster (Some cl) m n =
         Some \<lparr>cells = uniqueCells (maxKeepOf (length (cells cl)) n)
                  (map snd (filter (\<lambda>(i, c). m c \<ge> dynamicThresholdOf m (keptSlice m (cells cl) n) n \<or> i < n)
                     (enumerate 0 (keptSlice m (cells cl) n)))) {} [],
               cset = set (map coordKey (uniqueCells (maxKeepOf (length (cells cl)) n)
                  (map snd (filter (\<lambda>(i, c). m c \<ge> dynamicThresholdOf m (keptSlice m (cells cl) n) n \<or> i < n)
                     (enumerate 0 (keptSlice m (cells cl) n)))) {} []))\<rparr>"
  using assms by (simp add: refineSnakeCluster_def keptSlice_def Let_def)

lemmas refine_eval =
  refineSnakeCluster_def keptSlice_def evenMetrics_def maxKeepOf_def dynamicThresholdOf_def
  valueThreshold_def coordKey_def Let_def

text \<open>
  The claim C7 as stated fails on a tie. Two cells of luma 50 with
  \<^verbatim>\<open>expectedLen = 1\<close>: the cut-off is \<open>max 32 50 = 50\<close>, the cell at rank 1 has
  a brightness that does not exceed it and a rank outside \<^verbatim>\<open>expectedLen\<close>,
  and it is retained, since the test is \<^verbatim>\<open>cell.value >= dynamicThreshold\<close>.
\<close>

theorem refineSnakeCluster_tie_retained:
  "refineSnakeCluster (Some \<lparr>cells = [Cell 0 0, Cell 1 0], cset = {(0, 0), (1, 0)}\<rparr>)
     evenMetrics 1 =
     Some \<lparr>cells = [Cell 0 0, Cell 1 0], cset = {(0, 0), (1, 0)}\<rparr> \<and>
   keptSlice evenMetrics [Cell 0 0, Cell 1 0] 1 = [Cell 0 0, Cell 1 0] \<and>
   \<not> evenMetrics ([Cell 0 0, Cell 1 0] ! 1) > max 32 (evenMetrics ([Cell 0 0, Cell 1 0] ! (1 - 1))) \<and>
   \<not> (1::nat) < 1"
  by (simp add: refine_eval)

text \<open>
  C7, amended. For a non-empty cluster and \<^verbatim>\<open>expectedLen \<ge> 1\<close>,
  \<^verbatim>\<open>refineSnakeCluster\<close> returns at most
  \<^verbatim>\<open>max(expectedLen + 6, min(clusterSize, expectedLen * 2))\<close> cells; they are a
  subsequence of the kept slice of the cluster's cells sorted by brightness
  descending; and a cell of the kept slice is retained exactly when its
  brightness is greater than or equal to the dynamic cut-off or it is among
  the first \<^verbatim>\<open>expectedLen\<close> cells of the sorted order. The cut-off is the
  larger of 32 and the brightness at sorted index \<^verbatim>\<open>expectedLen - 1\<close>, or at
  the last index of the slice when the slice is shorter.
\<close>

theorem refineSnakeCluster_keeps:
  assumes "cells cl \<noteq> []" "1 \<le> n"
  shows "\<exists>r. refineSnakeCluster (Some cl) m n = Some r \<and>
           length (cells r) \<le> max (n + 6) (min (length (cells cl)) (n * 2)) \<and>
           subseq (cells r) (keptSlice m (cells cl) n) \<and>
           sorted (map (\<lambda>c. - m c) (keptSlice m (cells cl) n)) \<and>
           (\<forall>c \<in> set (keptSlice m (cells cl) n).
              c \<in> set (cells r) \<longleftrightarrow>
              m c \<ge> dynamicThresholdOf m (keptSlice m (cells cl) n) n \<or>
              c \<in> set (take n (keptSlice m (cells cl) n))) \<and>
           dynamicThresholdOf m (keptSlice m (cells cl) n) n =
             max 32 (m (keptSlice m (cells cl) n ! (min n (length (keptSlice m (cells cl) n)) - 1)))"
proof -
  let ?K = "maxKeepOf (length (cells cl)) n"
  let ?slice = "keptSlice m (cells cl) n"
  let ?thr = "dynamicThresholdOf m ?slice n"
  let ?filtered = "map snd (filter (\<lambda>(i, c). m c \<ge> ?thr \<or> i < n) (enumerate 0 ?slice))"
  let ?unique = "uniqueCells ?K ?filtered {} []"
  have r: "refineSnakeCluster (Some cl) m n =
           Some \<lparr>cells = ?unique, cset = set (map coordKey ?unique)\<rparr>"
    by (rule refineSnakeCluster_unfold[OF assms(1)])
  have slen: "length ?slice \<le> ?K" by (simp add: keptSlice_def)
  have "length ?slice = min ?K (length (cells cl))" by (simp add: keptSlice_def)
  moreover have "0 < ?K" by (simp add: maxKeepOf_def)
  ultimately have "0 < length ?slice" using assms(1) by simp
  then have sne: "?slice \<noteq> []" by blast
  have flen: "length ?filtered \<le> length ?slice"
    using length_filter_le[of _ "enumerate 0 ?slice"] by simp
  have sub: "subseq ?unique ?filtered" using uniqueCells_sub[of ?K ?filtered "{}" "[]"] by auto
  have sub2: "subseq ?unique ?slice"
    using sub filtered_subseq subseq_order.order_trans by blast
  have "length ?unique \<le> length ?slice" using sub2 by (rule list_emb_length)
  then have len: "length ?unique \<le> max (n + 6) (min (length (cells cl)) (n * 2))"
    using slen by (simp add: maxKeepOf_def)
  have set: "set ?unique = {c \<in> set ?slice. m c \<ge> ?thr} \<union> set (take n ?slice)"
  proof -
    have "set ?unique = set [] \<union> set ?filtered"
      by (rule uniqueCells_set) (use flen slen in simp_all)
    moreover have "set ?filtered = {c \<in> set ?slice. m c \<ge> ?thr} \<union> set (take n ?slice)"
      by (rule filtered_set)
    ultimately show ?thesis by (simp only: set_simps Un_empty_left)
  qed
  have srt: "sorted (map (\<lambda>c. - m c) ?slice)"
    by (simp add: keptSlice_def flip: take_map)
  have thr: "?thr = max 32 (m (?slice ! (min n (length ?slice) - 1)))"
  proof -
    define k where "k = min n (length ?slice) - 1"
    have ci: "min (int n - 1) (int (length ?slice) - 1) = int k"
      using assms(2) sne unfolding k_def by (cases "?slice") auto
    have kl: "k < length ?slice" using sne unfolding k_def by (cases "?slice") auto
    have "?thr = max valueThreshold
                   (if 0 \<le> int k \<and> int k < int (length ?slice)
                    then m (?slice ! nat (int k)) else valueThreshold)"
      unfolding dynamicThresholdOf_def Let_def ci ..
    then have "?thr = max 32 (m (?slice ! k))" using kl by (simp add: valueThreshold_def)
    then show ?thesis unfolding k_def .
  qed
  show ?thesis
    using r len sub2 srt set thr by auto
qed

text \<open>An instance: the two cells of luma 50 above.\<close>

theorem refineSnakeCluster_keeps_witness:
  "cells \<lparr>cells = [Cell 0 0, Cell 1 0], cset = {(0, 0), (1, 0)}\<rparr> \<noteq> [] \<and> (1::nat) \<le> 1 \<and>
   refineSnakeCluster (Some \<lparr>cells = [Cell 0 0, Cell 1 0], cset = {(0, 0), (1, 0)}\<rparr>)
     evenMetrics 1 =
     Some \<lparr>cells = [Cell 0 0, Cell 1 0], cset = {(0, 0), (1, 0)}\<rparr> \<and>
   length [Cell 0 0, Cell 1 0] \<le> max ((1::nat) + 6) (min (length [Cell 0 0, Cell 1 0]) (1 * 2)) \<and>
   Cell 1 0 \<in> set (keptSlice evenMetrics [Cell 0 0, Cell 1 0] 1) \<and>
   evenMetrics (Cell 1 0) \<ge> dynamicThresholdOf evenMetrics (keptSlice evenMetrics [Cell 0 0, Cell 1 0] 1) 1"
proof -
  let ?cl = "\<lparr>cells = [Cell 0 0, Cell 1 0], cset = {(0, 0), (1, 0)}\<rparr>"
  have h1: "cells ?cl \<noteq> []" by simp
  have h2: "(1::nat) \<le> 1" by simp
  have r: "refineSnakeCluster (Some ?cl) evenMetrics 1 = Some ?cl"
    by (simp add: refine_eval)
  have k: "Cell 1 0 \<in> set (keptSlice evenMetrics (cells ?cl) 1)"
    by (simp add: refine_eval)
  from refineSnakeCluster_keeps[OF h1 h2, of evenMetrics] r
  have "length (cells ?cl) \<le> max (1 + 6) (min (length (cells ?cl)) (1 * 2))"
    and "\<forall>c \<in> set (keptSlice evenMetrics (cells ?cl) 1).
           c \<in> set (cells ?cl) \<longleftrightarrow>
           evenMetrics c \<ge> dynamicThresholdOf evenMetrics (keptSlice evenMetrics (cells ?cl) 1) 1 \<or>
           c \<in> set (take 1 (keptSlice evenMetrics (cells ?cl) 1))"
    by auto
  then show ?thesis using r k by (simp add: refine_eval)
qed

section \<open>Properties of the control loop\<close>

lemmas safe_eval =
  chooseSafeDirection_def directionOrder_def pushUnseen_def reversesHeading_def
  List.map_filter_def DIRS_def dir_sel isInside_def grid_def initialBot_def

text \<open>
  The claim C8 as stated, for every state whose body has more than one cell,
  fails for \<^verbatim>\<open>chooseSafeDirection\<close> taken alone: its guard reads
  \<^verbatim>\<open>this.lastBodyLength\<close>, not the length of the state's body. With the
  constructor's fields (recorded length 1, heading \<^verbatim>\<open>(1,0)\<close>), a state of two
  cells and left preferred, it returns left.
\<close>

theorem chooseSafeDirection_stale_length_reverses:
  "lastBodyLength (initialBot 1) = 1 \<and> 1 < length (body twoCells) \<and>
   currentDir (initialBot 1) = Some (Cell 1 0) \<and>
   chooseSafeDirection (initialBot 1) twoCells [Some left] = Some left \<and>
   dx left = - cx (Cell 1 0) \<and> dy left = - cy (Cell 1 0)"
  by (simp add: safe_eval twoCells_def)

text \<open>
  C8, amended. For every control-loop state whose recorded body length
  \<^verbatim>\<open>this.lastBodyLength\<close> is greater than 1, every state, every current
  direction and every list of preferred directions, \<^verbatim>\<open>chooseSafeDirection\<close>
  never returns the reversal of the current direction; with the heading
  \<^verbatim>\<open>(1,0)\<close> it never returns a move \<^verbatim>\<open>(-1,0)\<close>.
\<close>

theorem chooseSafeDirection_skips_reversal:
  assumes "1 < lastBodyLength b" and "currentDir b = Some c"
    and "chooseSafeDirection b state preferred = Some d"
  shows "\<not> (dx d = - cx c \<and> dy d = - cy c) \<and>
         (c = Cell 1 0 \<longrightarrow> \<not> (dx d = - 1 \<and> dy d = 0))"
proof -
  from assms(3) have "\<not> reversesHeading b d"
    by (auto simp: chooseSafeDirection_def find_Some_iff)
  then have "\<not> (dx d = - cx c \<and> dy d = - cy c)"
    using assms(1,2) by (simp add: reversesHeading_def)
  then show ?thesis by auto
qed

text \<open>
  An instance: a snake of two cells heading right with the length 2 recorded
  and left preferred; left is skipped and up is returned.
\<close>

theorem chooseSafeDirection_skips_reversal_witness:
  "1 < lastBodyLength ((initialBot 1)\<lparr>lastBodyLength := 2\<rparr>) \<and>
   currentDir ((initialBot 1)\<lparr>lastBodyLength := 2\<rparr>) = Some (Cell 1 0) \<and>
   chooseSafeDirection ((initialBot 1)\<lparr>lastBodyLength := 2\<rparr>) twoCells [Some left] = Some up \<and>
   \<not> (dx up = - 1 \<and> dy up = 0)"
proof -
  let ?b = "(initialBot 1)\<lparr>lastBodyLength := 2\<rparr>"
  have h1: "1 < lastBodyLength ?b" by simp
  have h2: "currentDir ?b = Some (Cell 1 0)" by (simp add: initialBot_def)
  have h3: "chooseSafeDirection ?b twoCells [Some left] = Some up"
    by (simp add: safe_eval twoCells_def)
  from chooseSafeDirection_skips_reversal[OF h1 h2 h3] h1 h2 h3 show ?thesis by simp
qed

lemmas loop_eval =
  update_def ensureGameRunning_def observeBoard_def reconciled_def updateCurrentDir_def
  emergencyTurn_def shouldAvoidWall_def reconcile_def planAndDispatch_def replanned_def
  dispatch_def sendDirection_def reversesHeading_def sameCell_def isInside_def grid_def
  tickOf_def twoCells_def waitingBot_def initialBot_def coordKey_def Let_def

text \<open>
  The claim C9 as stated fails while the snake has not moved yet. The loop
  has sent a command from \<^verbatim>\<open>(5,5)\<close> and expects the head at \<^verbatim>\<open>(6,5)\<close>; the
  next tick still observes the head at \<^verbatim>\<open>(5,5)\<close>, which is not the predicted
  head but is the previous head: the pending flag stays set, the queued plan
  is kept and nothing is dispatched.
\<close>

theorem update_keeps_plan_while_waiting:
  "update (tickOf twoCells) waitingBot =
     Some (waitingBot\<lparr>prevSnake := Some [Cell 5 5, Cell 4 5],
                       prevSnakeKeys := {(5, 5), (4, 5)}\<rparr>, []) \<and>
   expectedHead waitingBot = Some (Cell 6 5) \<and> head twoCells \<noteq> Cell 6 5 \<and>
   commandPending (waitingBot\<lparr>prevSnake := Some [Cell 5 5, Cell 4 5],
                               prevSnakeKeys := {(5, 5), (4, 5)}\<rparr>) \<and>
   plan (waitingBot\<lparr>prevSnake := Some [Cell 5 5, Cell 4 5],
                     prevSnakeKeys := {(5, 5), (4, 5)}\<rparr>) = [up]"
  by (simp add: loop_eval)

lemma emergencyTurn_heads:
  "expectedHead (emergencyTurn b state) = expectedHead b \<and>
   prevHead (emergencyTurn b state) = prevHead b"
  by (simp add: emergencyTurn_def split: option.splits)

lemma updateCurrentDir_heads:
  "expectedHead (updateCurrentDir b state) = expectedHead b \<and>
   prevHead (updateCurrentDir b state) = prevHead b"
  by (simp add: updateCurrentDir_def split: option.splits list.splits)

lemma update_with_state:
  assumes "playing t" "observeBoard t (ensureGameRunning t b0) = (b1, Some state)"
  shows "update t b0 = planAndDispatch (reconciled b1 state) state"
  using assms by (simp add: update_def)

text \<open>
  C9, amended. On every tick in which a state is obtained, whenever the
  observed head matches neither the predicted head (\<^verbatim>\<open>expectedHead\<close>, if one
  is set) nor the previously observed head (\<^verbatim>\<open>prevHead\<close>, if one is
  recorded), the pending-command flag is cleared, the queued plan is emptied
  and the prediction is reset before planning, so that whatever the tick
  dispatches is the first move of a path planned afresh.
\<close>

theorem update_clears_on_mismatch:
  assumes "playing t" "observeBoard t (ensureGameRunning t b0) = (b1, Some state)"
    and "case expectedHead b1 of None \<Rightarrow> True | Some e \<Rightarrow> head state \<noteq> e"
    and "case prevHead b1 of None \<Rightarrow> True | Some p \<Rightarrow> head state \<noteq> p"
  shows "commandPending (reconciled b1 state) = False \<and> plan (reconciled b1 state) = [] \<and>
         expectedHead (reconciled b1 state) = None \<and>
         update t b0 =
           (case planPath (reconciled b1 state) state of
              None \<Rightarrow> None
            | Some p \<Rightarrow>
                if p = [] then Some (reconciled b1 state, [])
                else Some (dispatch ((reconciled b1 state)\<lparr>plan := p\<rparr>) state))"
proof -
  let ?b = "emergencyTurn (updateCurrentDir (b1\<lparr>lastBodyLength := length (body state)\<rparr>) state) state"
  have e: "expectedHead ?b = expectedHead b1" and p: "prevHead ?b = prevHead b1"
    by (simp_all add: emergencyTurn_heads updateCurrentDir_heads)
  have r: "reconcile ?b state =
           ?b\<lparr>prevHead := Some (head state), commandPending := False, plan := [],
               expectedHead := None\<rparr>"
    using assms(3,4) unfolding reconcile_def e p
    by (auto simp: sameCell_def cell.expand split: option.splits)
  have c: "commandPending (reconciled b1 state) = False" "plan (reconciled b1 state) = []"
    "expectedHead (reconciled b1 state) = None"
    unfolding reconciled_def r by simp_all
  have "(reconciled b1 state)\<lparr>plan := []\<rparr> = reconciled b1 state"
    using c(2) by (metis bot.surjective bot.update_convs(5))
  then have "planAndDispatch (reconciled b1 state) state =
           (case planPath (reconciled b1 state) state of
              None \<Rightarrow> None
            | Some p \<Rightarrow>
                if p = [] then Some (reconciled b1 state, [])
                else Some (dispatch ((reconciled b1 state)\<lparr>plan := p\<rparr>) state))"
    using c by (auto simp: planAndDispatch_def replanned_def split: option.splits)
  then show ?thesis using c update_with_state[OF assms(1,2)] by simp
qed

text \<open>An instance: the waiting loop observes the head one cell down instead.\<close>

theorem update_clears_on_mismatch_witness:
  "playing (tickOf movedDown) \<and>
   snd (observeBoard (tickOf movedDown) (ensureGameRunning (tickOf movedDown) waitingBot)) =
     Some movedDown \<and>
   expectedHead (fst (observeBoard (tickOf movedDown)
                        (ensureGameRunning (tickOf movedDown) waitingBot))) = Some (Cell 6 5) \<and>
   prevHead (fst (observeBoard (tickOf movedDown)
                    (ensureGameRunning (tickOf movedDown) waitingBot))) = Some (Cell 5 5) \<and>
   head movedDown = Cell 5 6 \<and>
   plan (reconciled (fst (observeBoard (tickOf movedDown)
                            (ensureGameRunning (tickOf movedDown) waitingBot))) movedDown) = [] \<and>
   commandPending (reconciled (fst (observeBoard (tickOf movedDown)
                            (ensureGameRunning (tickOf movedDown) waitingBot))) movedDown) = False"
proof -
  let ?t = "tickOf movedDown"
  let ?b1 = "fst (observeBoard ?t (ensureGameRunning ?t waitingBot))"
  have h1: "playing ?t" by (simp add: tickOf_def)
  have s: "snd (observeBoard ?t (ensureGameRunning ?t waitingBot)) = Some movedDown"
    by (simp add: observeBoard_def ensureGameRunning_def tickOf_def Let_def)
  then have h2: "observeBoard ?t (ensureGameRunning ?t waitingBot) = (?b1, Some movedDown)"
    by (simp add: prod_eq_iff)
  have e: "expectedHead ?b1 = Some (Cell 6 5)" and p: "prevHead ?b1 = Some (Cell 5 5)"
    by (simp_all add: observeBoard_def ensureGameRunning_def tickOf_def waitingBot_def
          initialBot_def Let_def)
  have hd: "head movedDown = Cell 5 6" by (simp add: movedDown_def)
  have h3: "case expectedHead ?b1 of None \<Rightarrow> True | Some e \<Rightarrow> head movedDown \<noteq> e"
    by (simp add: e hd)
  have h4: "case prevHead ?b1 of None \<Rightarrow> True | Some p \<Rightarrow> head movedDown \<noteq> p"
    by (simp add: p hd)
  from update_clears_on_mismatch[OF h1 h2 h3 h4] h1 s e p hd show ?thesis by simp
qed

lemma ensureGameRunning_synced:
  "commandPending b \<or> expectedHead b = None \<Longrightarrow>
   commandPending (ensureGameRunning t b) \<or> expectedHead (ensureGameRunning t b) = None"
  by (auto simp: ensureGameRunning_def resetBot_def Let_def)

lemma observeBoard_synced:
  "commandPending b \<or> expectedHead b = None \<Longrightarrow> observeBoard t b = (b1, st) \<Longrightarrow>
   commandPending b1 \<or> expectedHead b1 = None"
  by (auto simp: observeBoard_def Let_def split: option.splits if_splits)

lemma updateCurrentDir_frame:
  "commandPending (updateCurrentDir b state) = commandPending b \<and>
   expectedHead (updateCurrentDir b state) = expectedHead b \<and>
   prevHead (updateCurrentDir b state) = prevHead b \<and>
   plan (updateCurrentDir b state) = plan b \<and>
   lastBodyLength (updateCurrentDir b state) = lastBodyLength b"
  by (simp add: updateCurrentDir_def split: option.splits list.splits)

lemma emergencyTurn_cases:
  "emergencyTurn b state = b \<or>
   (\<exists>turn pref. chooseSafeDirection b state pref = Some turn \<and>
      emergencyTurn b state = b\<lparr>plan := [turn], commandPending := False\<rparr>)"
  by (auto simp: emergencyTurn_def split: option.splits)

lemma reconcile_cases:
  "reconcile b state = b \<or>
   (expectedHead (reconcile b state) = None \<and>
    lastBodyLength (reconcile b state) = lastBodyLength b \<and>
    currentDir (reconcile b state) = currentDir b)"
  by (auto simp: reconcile_def)

lemma replanned_cases:
  assumes "replanned b state = Some pb"
  shows "(pb = b \<and> plan b \<noteq> []) \<or> (plan b = [] \<and> (\<exists>p. pb = b\<lparr>plan := p\<rparr>))"
  using assms by (auto simp: replanned_def split: if_splits)

lemma chooseSafeDirection_sound:
  "chooseSafeDirection b state pref = Some d \<Longrightarrow> \<not> reversesHeading b d"
  by (auto simp: chooseSafeDirection_def find_Some_iff)

text \<open>
  Inside \<^verbatim>\<open>update\<close> the recorded length is the length of the state's body at
  both calls of the fallback: the emergency turn is chosen in the state
  \<open>updateCurrentDir (b\<lparr>lastBodyLength := length (body state)\<rparr>) state\<close> and
  \<^verbatim>\<open>planPath\<close> runs in the state \<open>reconciled b state\<close>. So at these calls the
  fallback returns no reversal for any state whose body has more than one
  cell.
\<close>

lemma emergencyTurn_lastBodyLength:
  "lastBodyLength (emergencyTurn b state) = lastBodyLength b"
  by (simp add: emergencyTurn_def split: option.splits)

lemma reconcile_lastBodyLength:
  "lastBodyLength (reconcile b state) = lastBodyLength b"
  by (simp add: reconcile_def)

lemma lastBodyLength_at_emergency_call:
  "lastBodyLength (updateCurrentDir (b\<lparr>lastBodyLength := length (body state)\<rparr>) state) =
   length (body state)"
  by (simp add: updateCurrentDir_frame)

lemma lastBodyLength_at_planPath_call:
  "lastBodyLength (reconciled b state) = length (body state)"
  by (simp add: reconciled_def reconcile_lastBodyLength emergencyTurn_lastBodyLength
        updateCurrentDir_frame)

lemma update_fallback_no_reversal:
  assumes "1 < length (body state)"
    and "b' = updateCurrentDir (b\<lparr>lastBodyLength := length (body state)\<rparr>) state \<or>
         b' = reconciled b state"
    and "currentDir b' = Some c" and "chooseSafeDirection b' state preferred = Some d"
  shows "\<not> (dx d = - cx c \<and> dy d = - cy c)"
proof -
  have "lastBodyLength b' = length (body state)"
    using assms(2) lastBodyLength_at_emergency_call lastBodyLength_at_planPath_call by auto
  then show ?thesis
    using chooseSafeDirection_sound[OF assms(4)] assms(1,3) by (simp add: reversesHeading_def)
qed

lemma pending_or_unset_before_dispatch:
  assumes sync: "commandPending b1 \<or> expectedHead b1 = None"
    and re: "replanned (reconciled b1 state) state = Some pb"
    and np: "\<not> commandPending pb" and pl: "plan pb = d # rest"
    and rev: "reversesHeading pb d"
  shows "expectedHead pb = None"
proof -
  let ?b2 = "updateCurrentDir (b1\<lparr>lastBodyLength := length (body state)\<rparr>) state"
  let ?b3 = "emergencyTurn ?b2 state"
  let ?b4 = "reconcile ?b3 state"
  have rb: "reconciled b1 state = ?b4\<lparr>prevSnakeKeys := set (map coordKey (body state))\<rparr>"
    by (simp add: reconciled_def)
  have b2: "commandPending ?b2 = commandPending b1" "expectedHead ?b2 = expectedHead b1"
    by (simp_all add: updateCurrentDir_frame)
  from replanned_cases[OF re] have pb:
    "expectedHead pb = expectedHead ?b4" "commandPending pb = commandPending ?b4"
    "lastBodyLength pb = lastBodyLength ?b4" "currentDir pb = currentDir ?b4"
    "plan ?b4 \<noteq> [] \<longrightarrow> plan pb = plan ?b4"
    unfolding rb by auto
  from reconcile_cases[of ?b3 state] show ?thesis
  proof
    assume "expectedHead ?b4 = None \<and> lastBodyLength ?b4 = lastBodyLength ?b3 \<and>
            currentDir ?b4 = currentDir ?b3"
    then show ?thesis using pb(1) by simp
  next
    assume same: "?b4 = ?b3"
    from emergencyTurn_cases[of ?b2 state] show ?thesis
    proof
      assume "?b3 = ?b2"
      then show ?thesis using same pb(1,2) b2 np sync by simp
    next
      assume "\<exists>turn pref. chooseSafeDirection ?b2 state pref = Some turn \<and>
                ?b3 = ?b2\<lparr>plan := [turn], commandPending := False\<rparr>"
      then obtain turn pref where t: "chooseSafeDirection ?b2 state pref = Some turn"
        and b3: "?b3 = ?b2\<lparr>plan := [turn], commandPending := False\<rparr>" by blast
      have "plan pb = [turn]" using pb(5) same b3 by simp
      then have "d = turn" using pl by simp
      moreover have "reversesHeading ?b2 d"
        using rev pb(3,4) same b3 by (simp add: reversesHeading_def)
      ultimately show ?thesis using chooseSafeDirection_sound[OF t] by simp
    qed
  qed
qed

text \<open>
  C10. In a tick of \<^verbatim>\<open>update\<close> that reaches the dispatch step with no command
  pending and a plan whose first move is the exact reversal of
  \<^verbatim>\<open>currentDir\<close> while \<^verbatim>\<open>lastBodyLength > 1\<close>: \<^verbatim>\<open>sendDirection\<close> returns
  false and dispatches no event; \<^verbatim>\<open>update\<close> ends with the move removed from
  the front of the plan and every other field as it was before the dispatch
  step, so \<^verbatim>\<open>commandPending\<close> is false and \<^verbatim>\<open>expectedHead\<close> is not set. When
  the tick started with a pending command or no prediction, as every tick of
  a loop started by the constructor does, \<^verbatim>\<open>expectedHead\<close> is null afterwards.
\<close>

theorem update_drops_reversed_move:
  assumes "playing t" and "observeBoard t (ensureGameRunning t b0) = (b1, Some state)"
    and "replanned (reconciled b1 state) state = Some pb"
    and "\<not> commandPending pb" and "plan pb = d # rest" and "1 < lastBodyLength pb"
    and "currentDir pb = Some c" and "dx d = - cx c" and "dy d = - cy c"
  shows "sendDirection (pb\<lparr>plan := rest\<rparr>) d = (False, []) \<and>
         dispatch pb state = (pb\<lparr>plan := rest\<rparr>, []) \<and>
         update t b0 = Some (pb\<lparr>plan := rest\<rparr>, []) \<and>
         commandPending (pb\<lparr>plan := rest\<rparr>) = False \<and>
         expectedHead (pb\<lparr>plan := rest\<rparr>) = expectedHead pb \<and>
         (commandPending b0 \<or> expectedHead b0 = None \<longrightarrow>
            expectedHead (pb\<lparr>plan := rest\<rparr>) = None)"
proof -
  have rev: "reversesHeading pb d"
    using assms(6-9) by (simp add: reversesHeading_def)
  have s: "sendDirection (pb\<lparr>plan := rest\<rparr>) d = (False, [])"
    using rev by (simp add: sendDirection_def reversesHeading_def)
  then have d: "dispatch pb state = (pb\<lparr>plan := rest\<rparr>, [])"
    using assms(4,5) by (simp add: dispatch_def)
  have u: "update t b0 = Some (pb\<lparr>plan := rest\<rparr>, [])"
    using update_with_state[OF assms(1,2)] assms(3,5) d by (simp add: planAndDispatch_def)
  have "expectedHead pb = None" if "commandPending b0 \<or> expectedHead b0 = None"
    using observeBoard_synced[OF ensureGameRunning_synced[OF that] assms(2)]
      assms(3,4,5) rev by (rule pending_or_unset_before_dispatch)
  then show ?thesis using s d u assms(4) by simp
qed

text \<open>
  An instance: a snake of two cells heading right whose queued plan starts
  with left.
\<close>

theorem update_drops_reversed_move_witness:
  "playing (tickOf twoCells) \<and>
   snd (observeBoard (tickOf twoCells)
          (ensureGameRunning (tickOf twoCells)
             ((initialBot 1)\<lparr>prevHead := Some (Cell 5 5), plan := [left, up]\<rparr>))) = Some twoCells \<and>
   expectedHead ((initialBot 1)\<lparr>prevHead := Some (Cell 5 5), plan := [left, up]\<rparr>) = None \<and>
   update (tickOf twoCells) ((initialBot 1)\<lparr>prevHead := Some (Cell 5 5), plan := [left, up]\<rparr>) =
     Some ((initialBot 1)\<lparr>prevHead := Some (Cell 5 5), plan := [up],
                           prevSnake := Some [Cell 5 5, Cell 4 5],
                           prevSnakeKeys := {(5, 5), (4, 5)}, lastBodyLength := 2\<rparr>, [])"
proof -
  let ?b0 = "(initialBot 1)\<lparr>prevHead := Some (Cell 5 5), plan := [left, up]\<rparr>"
  let ?t = "tickOf twoCells"
  let ?b1 = "fst (observeBoard ?t (ensureGameRunning ?t ?b0))"
  let ?pb = "?b0\<lparr>prevSnake := Some [Cell 5 5, Cell 4 5],
                 prevSnakeKeys := {(5, 5), (4, 5)}, lastBodyLength := 2\<rparr>"
  have h1: "playing ?t" by (simp add: tickOf_def)
  have s: "snd (observeBoard ?t (ensureGameRunning ?t ?b0)) = Some twoCells"
    by (simp add: observeBoard_def ensureGameRunning_def tickOf_def Let_def)
  then have h2: "observeBoard ?t (ensureGameRunning ?t ?b0) = (?b1, Some twoCells)"
    by (simp add: prod_eq_iff)
  have h3: "replanned (reconciled ?b1 twoCells) twoCells = Some ?pb"
    by (simp add: replanned_def reconciled_def observeBoard_def ensureGameRunning_def
          updateCurrentDir_def emergencyTurn_def reconcile_def sameCell_def tickOf_def
          twoCells_def initialBot_def coordKey_def Let_def)
  have h4: "\<not> commandPending ?pb" and h5: "plan ?pb = left # [up]"
    and h6: "1 < lastBodyLength ?pb" and h7: "currentDir ?pb = Some (Cell 1 0)"
    and h8: "dx left = - cx (Cell 1 0)" and h9: "dy left = - cy (Cell 1 0)"
    by (simp_all add: initialBot_def dir_sel)
  have e: "expectedHead ?b0 = None" by (simp add: initialBot_def)
  from update_drops_reversed_move[OF h1 h2 h3 h4 h5 h6 h7 h8 h9] h1 s e
  show ?thesis by (simp add: initialBot_def)
qed

text \<open>
  The condition on the start of a tick used in C10 holds for the constructor's
  fields and is kept by every tick.
\<close>

lemma initialBot_synced:
  "commandPending (initialBot sc) \<or> expectedHead (initialBot sc) = None"
  by (simp add: initialBot_def)

lemma update_keeps_synced:
  assumes "commandPending b0 \<or> expectedHead b0 = None" "update t b0 = Some (b', evs)"
  shows "commandPending b' \<or> expectedHead b' = None"
proof (cases "playing t")
  case False
  then show ?thesis using assms ensureGameRunning_synced[OF assms(1), of t] by (auto simp: update_def)
next
  case True
  obtain b1 st where ob: "observeBoard t (ensureGameRunning t b0) = (b1, st)"
    by (cases "observeBoard t (ensureGameRunning t b0)")
  have s1: "commandPending b1 \<or> expectedHead b1 = None"
    by (rule observeBoard_synced[OF ensureGameRunning_synced[OF assms(1)] ob])
  show ?thesis
  proof (cases st)
    case None
    then show ?thesis using assms(2) True ob s1 by (simp add: update_def)
  next
    case (Some state)
    then have u: "planAndDispatch (reconciled b1 state) state = Some (b', evs)"
      using update_with_state[OF True, of b0 b1 state] ob assms(2) by simp
    then obtain pb where re: "replanned (reconciled b1 state) state = Some pb"
      by (auto simp: planAndDispatch_def split: option.splits)
    show ?thesis
    proof (cases "commandPending pb")
      case True
      then show ?thesis using u re
        by (auto simp: planAndDispatch_def dispatch_def split: if_splits)
    next
      case np: False
      show ?thesis
      proof (cases "plan pb")
        case Nil
        let ?b2 = "updateCurrentDir (b1\<lparr>lastBodyLength := length (body state)\<rparr>) state"
        let ?b3 = "emergencyTurn ?b2 state"
        let ?b4 = "reconcile ?b3 state"
        have rb: "reconciled b1 state = ?b4\<lparr>prevSnakeKeys := set (map coordKey (body state))\<rparr>"
          by (simp add: reconciled_def)
        from replanned_cases[OF re] have pb:
          "expectedHead pb = expectedHead ?b4" "commandPending pb = commandPending ?b4"
          "plan ?b4 \<noteq> [] \<longrightarrow> plan pb = plan ?b4"
          unfolding rb by auto
        have "expectedHead pb = None"
          using reconcile_cases[of ?b3 state] emergencyTurn_cases[of ?b2 state] pb Nil np s1
          by (auto simp: updateCurrentDir_frame)
        moreover have "b' = pb" using u re Nil by (simp add: planAndDispatch_def)
        ultimately show ?thesis by simp
      next
        case (Cons d rest)
        show ?thesis
        proof (cases "reversesHeading pb d")
          case True
          have "expectedHead pb = None"
            by (rule pending_or_unset_before_dispatch[OF s1 re np Cons True])
          moreover have "b' = pb\<lparr>plan := rest\<rparr>"
            using u re Cons np True
            by (simp add: planAndDispatch_def dispatch_def sendDirection_def reversesHeading_def)
          ultimately show ?thesis by simp
        next
          case False
          then have "commandPending b'"
            using u re Cons np
            by (auto simp: planAndDispatch_def dispatch_def sendDirection_def reversesHeading_def)
          then show ?thesis by simp
        qed
      qed
    qed
  qed
qed

end
